theory Spec2Isabelle
  imports
    Main
    "HOL-Library.Option_ord"
    "HOL-Library.Product_Lexorder"
    "HOL-Library.Multiset"
begin

section \<open>Data model\<close>

text \<open>
  The report routes of \<^verbatim>\<open>src/routes/reports.js\<close> read two tables, customers and payments.
  A table is the list of its rows in storage order. Amounts are whole numbers (minor
  currency units); a fractional amount is outside this model. Where a handler adds
  amounts in JavaScript, the addition is that of doubles (\<open>js_add\<close> below), with its
  rounding beyond 53 bits. A calendar
  date is the triple (year, month, day) under the lexicographic order; a nullable column
  is an \<open>option\<close>, with \<open>None\<close> for SQL NULL and JavaScript \<^verbatim>\<open>null\<close>. The current date
  (\<^verbatim>\<open>date('now')\<close>, \<^verbatim>\<open>new Date()\<close>) is the parameter \<open>today\<close> of every operation
  that reads it.

  The routes spell the columns in two ways (\<^verbatim>\<open>customer_id\<close>, \<^verbatim>\<open>due_date\<close>,
  \<^verbatim>\<open>leasing_amount\<close> in the raw queries; \<^verbatim>\<open>customerId\<close>, \<^verbatim>\<open>dueDate\<close>,
  \<^verbatim>\<open>leasingAmount\<close> through the ORM); a record field stands for both spellings. The
  fields \<open>cid\<close>, \<open>pid\<close> and \<open>cstatus\<close> are the columns \<^verbatim>\<open>id\<close> of the two tables and
  \<^verbatim>\<open>status\<close> of a customer. A payment's status is the stored string: the routes compare
  it with \<^verbatim>\<open>paid\<close>, \<^verbatim>\<open>pending\<close> and \<^verbatim>\<open>overdue\<close>.

  Every route runs behind \<^verbatim>\<open>checkToken\<close>; the operations below are the handlers of an
  authenticated request whose queries the store answers.
\<close>

type_synonym date = "nat \<times> nat \<times> nat"

record payment =
  pid :: nat
  customerId :: nat
  amount :: int
  dueDate :: "date option"
  paymentDate :: "date option"
  status :: string

record customer =
  cid :: nat
  fullName :: string
  phoneNumber :: string
  carBrand :: "string option"
  carModel :: "string option"
  carYear :: "nat option"
  carPurchaseCost :: "int option"
  leasingAmount :: "int option"
  monthlyInstallment :: "int option"
  leaseDuration :: "int option"
  leaseStartDate :: "date option"
  creationDate :: date
  totalPaid :: "int option"
  cstatus :: string

section \<open>JavaScript and SQL primitives\<close>

text \<open>\<^verbatim>\<open>x || 0\<close> on a nullable number: \<^verbatim>\<open>null\<close>, \<^verbatim>\<open>NaN\<close> and \<^verbatim>\<open>0\<close> all give 0.\<close>

definition or0 :: "int option \<Rightarrow> int" where
  "or0 x = (case x of None \<Rightarrow> 0 | Some v \<Rightarrow> v)"

text \<open>
  SQL \<^verbatim>\<open>SUM\<close> skips NULL inputs and is NULL when no non-NULL input is left, in
  particular over zero rows.
\<close>

definition sql_sum :: "int option list \<Rightarrow> int option" where
  "sql_sum xs =
     (case List.map_filter (\<lambda>x. x) xs of [] \<Rightarrow> None | v # vs \<Rightarrow> Some (sum_list (v # vs)))"

text \<open>SQL \<^verbatim>\<open>COUNT(e)\<close> counts the rows where \<open>e\<close> is not NULL.\<close>

definition sql_count :: "'a option list \<Rightarrow> nat" where
  "sql_count xs = length (List.map_filter (\<lambda>x. x) xs)"

text \<open>SQL \<^verbatim>\<open>COUNT(DISTINCT e)\<close> counts the distinct non-NULL values of \<open>e\<close>.\<close>

definition sql_count_distinct :: "'a option list \<Rightarrow> nat" where
  "sql_count_distinct xs = length (remdups (List.map_filter (\<lambda>x. x) xs))"

text \<open>
  A comparison with a NULL operand is NULL, which a \<^verbatim>\<open>WHERE\<close> or \<^verbatim>\<open>CASE WHEN\<close>
  treats as false.
\<close>

definition sql_lt :: "date option \<Rightarrow> date \<Rightarrow> bool" where
  "sql_lt d t = (case d of None \<Rightarrow> False | Some v \<Rightarrow> v < t)"

definition sql_le :: "date option \<Rightarrow> date \<Rightarrow> bool" where
  "sql_le d t = (case d of None \<Rightarrow> False | Some v \<Rightarrow> v \<le> t)"

section \<open>Customer payment history\<close>

text \<open>
  \<^verbatim>\<open>GET /customer/:customerId/history\<close>: \<^verbatim>\<open>Payment.findAll\<close> with
  \<^verbatim>\<open>where: { customerId }\<close> and \<^verbatim>\<open>order: [['dueDate', 'ASC']]\<close>, then three
  \<^verbatim>\<open>reduce\<close> folds over the rows. NULL sorts first in ascending order.
\<close>

definition findAll_customer :: "nat \<Rightarrow> payment list \<Rightarrow> payment list" where
  "findAll_customer k ps = sort_key dueDate (filter (\<lambda>p. customerId p = k) ps)"

text \<open>
  \<^verbatim>\<open>sum + p.amount\<close> on numbers is the addition of doubles: the exact sum rounded to 53
  significant bits, ties to the even neighbour. On whole numbers that is \<open>round53\<close> of
  the integer sum (overflow to \<^verbatim>\<open>Infinity\<close>, beyond \<open>2 ^ 1024\<close>, is left out).
\<close>

fun bit_length :: "nat \<Rightarrow> nat" where
  "bit_length n = (if n = 0 then 0 else Suc (bit_length (n div 2)))"

declare bit_length.simps [simp del]

definition round53 :: "int \<Rightarrow> int" where
  "round53 x =
     (let m = nat \<bar>x\<bar>;
          e = bit_length m - 53;
          q = m div 2 ^ e;
          r = m mod 2 ^ e;
          q' = (if 2 ^ e < 2 * r \<or> (2 * r = 2 ^ e \<and> odd q) then q + 1 else q)
      in if e = 0 then x else sgn x * int (q' * 2 ^ e))"

definition js_add :: "int \<Rightarrow> int \<Rightarrow> int" where
  "js_add a b = round53 (a + b)"

definition reduce_amount :: "payment list \<Rightarrow> int" where
  "reduce_amount ps = foldl (\<lambda>sum p. js_add sum (amount p)) 0 ps"

record history =
  totalAmount :: int
  paidAmount :: int
  remainingAmount :: int
  payments :: "payment list"

definition customer_history :: "nat \<Rightarrow> payment list \<Rightarrow> history" where
  "customer_history k ps =
     (let rows = findAll_customer k ps in
      \<lparr> totalAmount = reduce_amount rows,
        paidAmount = reduce_amount (filter (\<lambda>p. status p = ''paid'') rows),
        remainingAmount = reduce_amount (filter (\<lambda>p. status p = ''pending'') rows),
        payments = rows \<rparr>)"

section \<open>PDF export: summary block\<close>

text \<open>
  The summary block at the end of \<^verbatim>\<open>GET /export/payments/pdf\<close>: four counts and two
  sums over all payments, each selected by the stored status string alone.
\<close>

record pdf_summary =
  pdf_totalPayments :: nat
  pdf_paidPayments :: nat
  pdf_overduePayments :: nat
  pdf_pendingPayments :: nat
  pdf_totalAmount :: int
  pdf_paidAmount :: int

definition export_pdf_summary :: "payment list \<Rightarrow> pdf_summary" where
  "export_pdf_summary ps =
     \<lparr> pdf_totalPayments = length ps,
       pdf_paidPayments = length (filter (\<lambda>p. status p = ''paid'') ps),
       pdf_overduePayments = length (filter (\<lambda>p. status p = ''overdue'') ps),
       pdf_pendingPayments = length (filter (\<lambda>p. status p = ''pending'') ps),
       pdf_totalAmount = reduce_amount ps,
       pdf_paidAmount = reduce_amount (filter (\<lambda>p. status p = ''paid'') ps) \<rparr>"

section \<open>Joins and subqueries\<close>

text \<open>
  \<^verbatim>\<open>FROM customers c LEFT JOIN payments p ON c.id = p.customer_id [AND cond]\<close>: every
  customer paired with each of its payments that satisfies the \<^verbatim>\<open>ON\<close> condition, and
  paired once with NULL when it has none.
\<close>

definition left_join_on ::
  "(payment \<Rightarrow> bool) \<Rightarrow> customer list \<Rightarrow> payment list \<Rightarrow> (customer \<times> payment option) list" where
  "left_join_on cond cs ps =
     concat (map (\<lambda>c.
       (case filter (\<lambda>p. customerId p = cid c \<and> cond p) ps of
          [] \<Rightarrow> [(c, None)]
        | q # qs \<Rightarrow> map (\<lambda>p. (c, Some p)) (q # qs))) cs)"

definition left_join :: "customer list \<Rightarrow> payment list \<Rightarrow> (customer \<times> payment option) list" where
  "left_join cs ps = left_join_on (\<lambda>p. True) cs ps"

text \<open>
  The two correlated subqueries shared by the summary and the customer report:
  \<^verbatim>\<open>EXISTS (SELECT 1 FROM payments p2 WHERE p2.customer_id = c.id AND p2.status = 'pending'
  AND p2.due_date < date('now'))\<close>, and the same without the date condition.
\<close>

definition exists_overdue :: "date \<Rightarrow> payment list \<Rightarrow> nat \<Rightarrow> bool" where
  "exists_overdue today ps k =
     list_ex (\<lambda>p2. customerId p2 = k \<and> status p2 = ''pending'' \<and> sql_lt (dueDate p2) today) ps"

definition exists_pending :: "payment list \<Rightarrow> nat \<Rightarrow> bool" where
  "exists_pending ps k = list_ex (\<lambda>p2. customerId p2 = k \<and> status p2 = ''pending'') ps"

text \<open>
  \<^verbatim>\<open>CASE WHEN p.status = s THEN p.amount ELSE 0 END\<close> on a joined row: on the NULL
  payment of a customer without payments the comparison is NULL and the \<^verbatim>\<open>ELSE\<close> applies.
\<close>

definition case_amount :: "string \<Rightarrow> payment option \<Rightarrow> int option" where
  "case_amount s r =
     (case r of None \<Rightarrow> Some 0 | Some p \<Rightarrow> if status p = s then Some (amount p) else Some 0)"

section \<open>Financial summary\<close>

text \<open>
  \<^verbatim>\<open>GET /summary\<close>: one aggregate row over the left join, to which the handler adds
  \<^verbatim>\<open>total_profit = (total_collected || 0) - (total_invested || 0)\<close>. The six SQL
  columns are returned as the store computed them.
\<close>

record summary =
  total_customers :: nat
  total_invested :: "int option"
  total_collected :: "int option"
  total_pending :: "int option"
  overdue_customers :: nat
  completed_customers :: nat
  total_profit :: int

definition get_summary :: "date \<Rightarrow> customer list \<Rightarrow> payment list \<Rightarrow> summary" where
  "get_summary today cs ps =
     (let rows = left_join cs ps;
          invested = sql_sum (map (\<lambda>(c, r). leasingAmount c) rows);
          collected = sql_sum (map (\<lambda>(c, r). case_amount ''paid'' r) rows)
      in \<lparr> total_customers = sql_count_distinct (map (\<lambda>(c, r). Some (cid c)) rows),
           total_invested = invested,
           total_collected = collected,
           total_pending = sql_sum (map (\<lambda>(c, r). case_amount ''pending'' r) rows),
           overdue_customers = sql_count_distinct
             (map (\<lambda>(c, r). if exists_overdue today ps (cid c) then Some (cid c) else None) rows),
           completed_customers = sql_count_distinct
             (map (\<lambda>(c, r). if \<not> exists_pending ps (cid c) then Some (cid c) else None) rows),
           total_profit = or0 collected - or0 invested \<rparr>)"

section \<open>Monthly report\<close>

text \<open>
  \<^verbatim>\<open>GET /monthly\<close>: payments grouped by \<^verbatim>\<open>strftime('%Y-%m', "dueDate")\<close>, which is
  NULL for a NULL due date; NULL forms a group of its own and sorts last under
  \<^verbatim>\<open>ORDER BY period DESC\<close>.
\<close>

definition year_month :: "date option \<Rightarrow> (nat \<times> nat) option" where
  "year_month d = (case d of None \<Rightarrow> None | Some (y, m, dd) \<Rightarrow> Some (y, m))"

record monthly_row =
  period :: "(nat \<times> nat) option"
  total_payments :: nat
  collected_amount :: "int option"
  overdue_amount :: "int option"
  overdue_payments :: nat
  completed_payments :: nat

definition monthly_bucket :: "date \<Rightarrow> (nat \<times> nat) option \<Rightarrow> payment list \<Rightarrow> monthly_row" where
  "monthly_bucket today k grp =
     \<lparr> period = k,
       total_payments = length grp,
       collected_amount =
         sql_sum (map (\<lambda>p. if status p = ''paid'' then Some (amount p) else Some 0) grp),
       overdue_amount =
         sql_sum (map (\<lambda>p. if status p = ''pending'' \<and> sql_le (dueDate p) today
                           then Some (amount p) else Some 0) grp),
       overdue_payments =
         sql_count (map (\<lambda>p. if status p = ''pending'' \<and> sql_le (dueDate p) today
                             then Some (1::nat) else None) grp),
       completed_payments =
         sql_count (map (\<lambda>p. if status p = ''paid'' then Some (1::nat) else None) grp) \<rparr>"

definition get_monthly :: "date \<Rightarrow> payment list \<Rightarrow> monthly_row list" where
  "get_monthly today ps =
     map (\<lambda>k. monthly_bucket today k (filter (\<lambda>p. year_month (dueDate p) = k) ps))
       (rev (sort (remdups (map (\<lambda>p. year_month (dueDate p)) ps))))"

section \<open>Customer report\<close>

text \<open>
  A query-string parameter is absent (\<open>None\<close>) or a string; the guards \<^verbatim>\<open>if (status)\<close>,
  \<^verbatim>\<open>if (search)\<close>, \<^verbatim>\<open>if (car_brand)\<close> pass for a present, non-empty string only:
  \<open>present\<close> gives the string that passes the guard.
\<close>

definition present :: "string option \<Rightarrow> string option" where
  "present x = (case x of None \<Rightarrow> None | Some s \<Rightarrow> if s = [] then None else Some s)"

text \<open>
  The \<^verbatim>\<open>LIKE\<close> operator of the store: \<^verbatim>\<open>%\<close> matches any run of characters,
  \<^verbatim>\<open>_\<close> any single character, and any other pattern character matches itself up to the
  case of the ASCII letters. The store reads both operands as C strings: the pattern and
  the text each end at their first NUL character (\<open>c_string\<close>), so \<open>sql_like\<close> is the
  matcher \<open>like\<close> on the two cut strings.
\<close>

definition lower :: "char \<Rightarrow> char" where
  "lower c =
     (let n = (of_char c :: nat) in if 65 \<le> n \<and> n \<le> 90 then char_of (n + 32) else c)"

fun like :: "string \<Rightarrow> string \<Rightarrow> bool" where
  "like [] [] = True"
| "like [] (c # s) = False"
| "like (p # ps) [] = (p = CHR ''%'' \<and> like ps [])"
| "like (p # ps) (c # s) =
     (if p = CHR ''%'' then like ps (c # s) \<or> like (p # ps) s
      else (p = CHR ''_'' \<or> lower p = lower c) \<and> like ps s)"

definition c_string :: "string \<Rightarrow> string" where
  "c_string s = takeWhile (\<lambda>c. c \<noteq> CHR 0x00) s"

definition sql_like :: "string \<Rightarrow> string \<Rightarrow> bool" where
  "sql_like pat s = like (c_string pat) (c_string s)"

record customers_query =
  q_status :: "string option"
  q_search :: "string option"
  q_car_brand :: "string option"

text \<open>
  The conjunction \<^verbatim>\<open>conditions.join(' AND ')\<close>, starting from \<^verbatim>\<open>1=1\<close>. A status other
  than \<^verbatim>\<open>overdue\<close> and \<^verbatim>\<open>completed\<close> adds no condition. \<^verbatim>\<open>c.car_brand = ?\<close> is false
  on a NULL brand.
\<close>

definition where_customers :: "date \<Rightarrow> customers_query \<Rightarrow> payment list \<Rightarrow> customer \<Rightarrow> bool" where
  "where_customers today q ps c =
     ((case present (q_status q) of
         None \<Rightarrow> True
       | Some st \<Rightarrow>
           if st = ''overdue'' then exists_overdue today ps (cid c)
           else if st = ''completed'' then \<not> exists_pending ps (cid c)
           else True)
      \<and> (case present (q_search q) of
           None \<Rightarrow> True
         | Some se \<Rightarrow>
             sql_like (''%'' @ se @ ''%'') (fullName c)
             \<or> sql_like (''%'' @ se @ ''%'') (phoneNumber c))
      \<and> (case present (q_car_brand q) of
           None \<Rightarrow> True
         | Some b \<Rightarrow> carBrand c = Some b))"

text \<open>\<^verbatim>\<open>MAX\<close> and \<^verbatim>\<open>MIN\<close> skip NULL inputs and are NULL when none is left.\<close>

definition sql_max :: "('a::linorder) option list \<Rightarrow> 'a option" where
  "sql_max xs = (case List.map_filter (\<lambda>x. x) xs of [] \<Rightarrow> None | v # vs \<Rightarrow> Some (fold max vs v))"

definition sql_min :: "('a::linorder) option list \<Rightarrow> 'a option" where
  "sql_min xs = (case List.map_filter (\<lambda>x. x) xs of [] \<Rightarrow> None | v # vs \<Rightarrow> Some (fold min vs v))"

record customer_row =
  row_customer :: customer
  total_payments_c :: nat
  payments_made :: nat
  total_paid :: "int option"
  remaining_amount :: "int option"
  last_payment_date :: "date option"
  next_due_date :: "date option"

text \<open>
  One output row per \<^verbatim>\<open>GROUP BY c.id\<close> group; the columns \<^verbatim>\<open>c.*\<close> are read from the
  first joined row of the group.
\<close>

definition customer_group_row :: "customer \<Rightarrow> (customer \<times> payment option) list \<Rightarrow> customer_row" where
  "customer_group_row c grp =
     \<lparr> row_customer = c,
       total_payments_c = sql_count (map (\<lambda>(c', r). map_option pid r) grp),
       payments_made = sql_count
         (map (\<lambda>(c', r). case r of None \<Rightarrow> None
                 | Some p \<Rightarrow> if status p = ''paid'' then Some (1::nat) else None) grp),
       total_paid = sql_sum (map (\<lambda>(c', r). case_amount ''paid'' r) grp),
       remaining_amount = sql_sum (map (\<lambda>(c', r). case_amount ''pending'' r) grp),
       last_payment_date = sql_max
         (map (\<lambda>(c', r). case r of None \<Rightarrow> None
                 | Some p \<Rightarrow> if status p = ''paid'' then paymentDate p else None) grp),
       next_due_date = sql_min
         (map (\<lambda>(c', r). case r of None \<Rightarrow> None
                 | Some p \<Rightarrow> if status p = ''pending'' then dueDate p else None) grp) \<rparr>"

definition get_customers :: "date \<Rightarrow> customers_query \<Rightarrow> customer list \<Rightarrow> payment list \<Rightarrow> customer_row list" where
  "get_customers today q cs ps =
     (let rows = filter (\<lambda>(c, r). where_customers today q ps c) (left_join cs ps);
          groups = concat (map (\<lambda>k.
            (case filter (\<lambda>(c, r). cid c = k) rows of
               [] \<Rightarrow> []
             | (c, r) # rest \<Rightarrow> [customer_group_row c ((c, r) # rest)]))
            (remdups (map (\<lambda>(c, r). cid c) rows)))
      in rev (sort_key (\<lambda>row. creationDate (row_customer row)) groups))"

section \<open>Filtered payments\<close>













section \<open>Dashboard statistics\<close>

text \<open>
  \<^verbatim>\<open>GET /dashboard\<close> issues one ORM query per statistic. \<^verbatim>\<open>Model.count\<close> resolves to
  a number, except under a \<^verbatim>\<open>group\<close> option, where it resolves to an array with one
  entry per group that passes \<^verbatim>\<open>HAVING\<close>, each entry carrying that group's own count.
  The handler's \<^verbatim>\<open>|| 0\<close> leaves a number as it is, and an array too, since every array
  is truthy.
\<close>

datatype count_result = Count nat | CountGroups "nat list"

record dashboard_stats =
  totalCustomers :: nat
  activeLeases :: nat
  fullyPaidCustomers :: count_result
  monthlyPayments :: int
  totalInvested :: int
  totalCollected :: int
  totalUnpaid :: int
  overduePayments :: nat
  totalProfit :: int

text \<open>
  \<^verbatim>\<open>Customer.count\<close> with the pending payments included as \<^verbatim>\<open>required: true\<close>: the
  number of rows of the inner join.
\<close>

definition count_active_leases :: "customer list \<Rightarrow> payment list \<Rightarrow> nat" where
  "count_active_leases cs ps =
     length (concat (map (\<lambda>c.
       filter (\<lambda>p. customerId p = cid c \<and> status p = ''pending'') ps) cs))"

text \<open>
  \<^verbatim>\<open>Customer.count\<close> with the pending payments included as \<^verbatim>\<open>required: false\<close>,
  \<^verbatim>\<open>group: ['Customer.id']\<close> and
  \<^verbatim>\<open>having: COUNT(CASE WHEN Payments.status = "pending" THEN 1 END) = 0\<close>: the left join
  on the pending payments, grouped by customer id, each surviving group counted.
\<close>

definition count_fully_paid :: "customer list \<Rightarrow> payment list \<Rightarrow> count_result" where
  "count_fully_paid cs ps =
     (let rows = left_join_on (\<lambda>p. status p = ''pending'') cs ps in
      CountGroups (concat (map (\<lambda>k.
        (let grp = filter (\<lambda>(c, r). cid c = k) rows in
         if sql_count (map (\<lambda>(c, r). case r of None \<Rightarrow> None
                | Some p \<Rightarrow> if status p = ''pending'' then Some (1::nat) else None) grp) = 0
         then [sql_count (map (\<lambda>(c, r). Some (cid c)) grp)] else []))
        (remdups (map (\<lambda>(c, r). cid c) rows)))))"

text \<open>
  The profit fold: \<^verbatim>\<open>parseFloat(x) || 0\<close> and \<^verbatim>\<open>parseInt(x) || 0\<close> read a NULL field
  as 0.
\<close>

definition customerProfit :: "customer \<Rightarrow> int" where
  "customerProfit c = or0 (monthlyInstallment c) * or0 (leaseDuration c) - or0 (leasingAmount c)"

definition get_dashboard :: "date \<Rightarrow> customer list \<Rightarrow> payment list \<Rightarrow> dashboard_stats" where
  "get_dashboard today cs ps =
     \<lparr> totalCustomers = length cs,
       activeLeases = count_active_leases cs ps,
       fullyPaidCustomers = count_fully_paid cs ps,
       monthlyPayments = or0 (sql_sum (map monthlyInstallment cs)),
       totalInvested = or0 (sql_sum (map leasingAmount cs)),
       totalCollected =
         or0 (sql_sum (map (\<lambda>p. Some (amount p)) (filter (\<lambda>p. status p = ''paid'') ps))),
       totalUnpaid =
         or0 (sql_sum (map (\<lambda>p. Some (amount p)) (filter (\<lambda>p. status p = ''pending'') ps))),
       overduePayments =
         length (filter (\<lambda>p. status p = ''pending'' \<and> sql_lt (dueDate p) today) ps),
       totalProfit = foldl (\<lambda>sum c. sum + customerProfit c) 0 cs \<rparr>"

section \<open>Spreadsheet export\<close>

text \<open>
  \<^verbatim>\<open>GET /export/customers/excel\<close>. A worksheet is the list of its rows, row 1 first;
  assigning \<^verbatim>\<open>worksheet.columns\<close> writes the headers into row 1 and \<^verbatim>\<open>addRow\<close> appends
  below. Two operations defined outside the source are parameters: \<open>calc\<close> is the
  customer's \<^verbatim>\<open>calculateProfit\<close> method when the model defines one, and \<open>fmt\<close> is
  \<^verbatim>\<open>new Date(x).toLocaleDateString()\<close>.
\<close>

datatype cell = CNum int | CStr string | CNull

record sheet_row =
  cells :: "cell list"
  bold :: bool

definition digit_char :: "nat \<Rightarrow> char" where
  "digit_char d = char_of (48 + d)"

fun string_of_nat :: "nat \<Rightarrow> string" where
  "string_of_nat n =
     (if n < 10 then [digit_char n] else string_of_nat (n div 10) @ [digit_char (n mod 10)])"

declare string_of_nat.simps [simp del]

text \<open>A template literal prints \<^verbatim>\<open>null\<close> for a NULL field.\<close>

definition tpl_string :: "string option \<Rightarrow> string" where
  "tpl_string x = (case x of None \<Rightarrow> ''null'' | Some s \<Rightarrow> s)"

definition tpl_nat :: "nat option \<Rightarrow> string" where
  "tpl_nat x = (case x of None \<Rightarrow> ''null'' | Some n \<Rightarrow> string_of_nat n)"

definition carDetails :: "customer \<Rightarrow> string" where
  "carDetails c =
     tpl_string (carBrand c) @ '' '' @ tpl_string (carModel c) @ '' ('' @ tpl_nat (carYear c) @ '')''"

definition num_cell :: "int option \<Rightarrow> cell" where
  "num_cell x = (case x of None \<Rightarrow> CNull | Some v \<Rightarrow> CNum v)"

definition excel_headers :: "string list" where
  "excel_headers =
     [''ID'', ''Full Name'', ''Phone Number'', ''Car Details'', ''Purchase Cost'',
      ''Leasing Amount'', ''Monthly Payment'', ''Lease Duration'', ''Start Date'',
      ''Total Paid'', ''Profit'', ''Status'']"

definition excel_row ::
  "(customer \<Rightarrow> cell) option \<Rightarrow> (date option \<Rightarrow> string) \<Rightarrow> customer \<Rightarrow> cell list" where
  "excel_row calc fmt c =
     [CNum (int (cid c)), CStr (fullName c), CStr (phoneNumber c), CStr (carDetails c),
      num_cell (carPurchaseCost c), num_cell (leasingAmount c), num_cell (monthlyInstallment c),
      num_cell (leaseDuration c), CStr (fmt (leaseStartDate c)), num_cell (totalPaid c),
      (case calc of None \<Rightarrow> CStr [] | Some f \<Rightarrow> f c), CStr (cstatus c)]"

definition export_customers_excel ::
  "(customer \<Rightarrow> cell) option \<Rightarrow> (date option \<Rightarrow> string) \<Rightarrow> customer list \<Rightarrow> sheet_row list" where
  "export_customers_excel calc fmt cs =
     (let customers = rev (sort_key creationDate cs);
          header = \<lparr> cells = map CStr excel_headers, bold = False \<rparr>;
          rows = map (\<lambda>c. \<lparr> cells = excel_row calc fmt c, bold = False \<rparr>) customers
      in header\<lparr> bold := True \<rparr> # rows)"

section \<open>Specification-side notions and sample rows\<close>

text \<open>
  Case-insensitive substring, as the specification words the search filter: \<open>s\<close> occurs
  in \<open>t\<close> at some position, up to the case of the ASCII letters.
\<close>

fun prefix_ci :: "string \<Rightarrow> string \<Rightarrow> bool" where
  "prefix_ci [] t = True"
| "prefix_ci (a # s) [] = False"
| "prefix_ci (a # s) (b # t) = (lower a = lower b \<and> prefix_ci s t)"

fun contains_ci :: "string \<Rightarrow> string \<Rightarrow> bool" where
  "contains_ci s [] = prefix_ci s []"
| "contains_ci s (b # t) = (prefix_ci s (b # t) \<or> contains_ci s t)"

text \<open>Rows for the concrete instances below.\<close>

definition sample_payment :: "nat \<Rightarrow> nat \<Rightarrow> int \<Rightarrow> date option \<Rightarrow> string \<Rightarrow> payment" where
  "sample_payment i k a d st =
     \<lparr> pid = i, customerId = k, amount = a, dueDate = d, paymentDate = None, status = st \<rparr>"

definition sample_customer :: "nat \<Rightarrow> string \<Rightarrow> string \<Rightarrow> customer" where
  "sample_customer i n ph =
     \<lparr> cid = i, fullName = n, phoneNumber = ph, carBrand = Some ''Kia'', carModel = Some ''Rio'',
       carYear = Some 2020, carPurchaseCost = Some 9000, leasingAmount = Some 10000,
       monthlyInstallment = Some 500, leaseDuration = Some 24,
       leaseStartDate = Some (2024, 1, 1), creationDate = (2024, 1, 1),
       totalPaid = Some 0, cstatus = ''active'' \<rparr>"

section \<open>PDF summary: counts by stored status\<close>

text \<open>
  Claim C10: the PDF summary block counts paid, overdue and pending payments by the
  stored status string alone. A payment stored as \<^verbatim>\<open>pending\<close> whose due date has passed
  adds one to the pending count and nothing to the overdue count, while the dashboard's
  overdue count, which uses the derived predicate (pending and due before today), counts it.
\<close>

theorem pdf_summary_counts_stored_status:
  assumes "status p = ''pending''" and "sql_lt (dueDate p) today"
  shows "pdf_paidPayments (export_pdf_summary ps) = length (filter (\<lambda>x. status x = ''paid'') ps)
       \<and> pdf_overduePayments (export_pdf_summary ps) = length (filter (\<lambda>x. status x = ''overdue'') ps)
       \<and> pdf_pendingPayments (export_pdf_summary ps) = length (filter (\<lambda>x. status x = ''pending'') ps)
       \<and> pdf_overduePayments (export_pdf_summary (p # ps)) = pdf_overduePayments (export_pdf_summary ps)
       \<and> pdf_pendingPayments (export_pdf_summary (p # ps)) = Suc (pdf_pendingPayments (export_pdf_summary ps))
       \<and> overduePayments (get_dashboard today cs (p # ps)) = Suc (overduePayments (get_dashboard today cs ps))"
  using assms by (simp add: export_pdf_summary_def get_dashboard_def)

theorem pdf_summary_counts_stored_status_witness:
  "status (sample_payment 1 1 500 (Some (2024, 1, 1)) ''pending'') = ''pending''
   \<and> sql_lt (dueDate (sample_payment 1 1 500 (Some (2024, 1, 1)) ''pending'')) (2024, 6, 1)
   \<and> pdf_overduePayments (export_pdf_summary [sample_payment 1 1 500 (Some (2024, 1, 1)) ''pending'']) = 0
   \<and> pdf_pendingPayments (export_pdf_summary [sample_payment 1 1 500 (Some (2024, 1, 1)) ''pending'']) = 1
   \<and> overduePayments (get_dashboard (2024, 6, 1) [] [sample_payment 1 1 500 (Some (2024, 1, 1)) ''pending'']) = 1"
proof -
  let ?p = "sample_payment 1 1 500 (Some (2024, 1, 1)) ''pending''"
  have h1: "status ?p = ''pending''" by (simp add: sample_payment_def)
  have h2: "sql_lt (dueDate ?p) (2024, 6, 1)"
    by (simp add: sample_payment_def sql_lt_def less_prod_def)
  from pdf_summary_counts_stored_status [OF h1 h2, of "[]" "[]"] h1 h2
  show ?thesis by (simp add: export_pdf_summary_def get_dashboard_def)
qed

section \<open>Spreadsheet export: rows and cells\<close>

text \<open>
  Claim C9: exporting N customers gives N + 1 rows, the bold header row of the 12 fixed
  column titles followed by one 12-cell row per customer (in descending order of creation
  date); the car-details cell is the template \<^verbatim>\<open>${brand} ${model} (${year})\<close>, that is
  \<^verbatim>\<open>brand model (year)\<close> when the three fields are set; and the profit cell is the
  result of the customer's own \<^verbatim>\<open>calculateProfit\<close> when the method exists and the
  empty string otherwise.
\<close>

theorem excel_export_rows:
  "length (export_customers_excel calc fmt cs) = length cs + 1
   \<and> export_customers_excel calc fmt cs =
       \<lparr> cells = map CStr excel_headers, bold = True \<rparr>
       # map (\<lambda>c. \<lparr> cells = excel_row calc fmt c, bold = False \<rparr>) (rev (sort_key creationDate cs))
   \<and> mset (rev (sort_key creationDate cs)) = mset cs
   \<and> length excel_headers = 12
   \<and> length (excel_row calc fmt c) = 12
   \<and> excel_row calc fmt c ! 3 =
       CStr (tpl_string (carBrand c) @ '' '' @ tpl_string (carModel c) @ '' ('' @ tpl_nat (carYear c) @ '')'')
   \<and> (carBrand c = Some b \<and> carModel c = Some m \<and> carYear c = Some y \<longrightarrow>
        excel_row calc fmt c ! 3 = CStr (b @ '' '' @ m @ '' ('' @ string_of_nat y @ '')''))
   \<and> excel_row (Some f) fmt c ! 10 = f c
   \<and> excel_row None fmt c ! 10 = CStr []"
  by (simp add: export_customers_excel_def excel_row_def excel_headers_def carDetails_def
      tpl_string_def tpl_nat_def Let_def)

theorem excel_export_rows_witness:
  "excel_row None (\<lambda>d. ''1/1/2024'') (sample_customer 7 ''Bob'' ''555'') ! 3 = CStr ''Kia Rio (2020)''
   \<and> length (export_customers_excel None (\<lambda>d. ''1/1/2024'')
        [sample_customer 7 ''Bob'' ''555'', sample_customer 8 ''Al'' ''556'']) = 3"
proof -
  let ?c = "sample_customer 7 ''Bob'' ''555''"
  let ?cs = "[?c, sample_customer 8 ''Al'' ''556'']"
  have hyp: "carBrand ?c = Some ''Kia'' \<and> carModel ?c = Some ''Rio'' \<and> carYear ?c = Some 2020"
    by (simp add: sample_customer_def)
  have year: "string_of_nat 2020 = ''2020''"
    by code_simp
  note inst = excel_export_rows [of None "\<lambda>d. ''1/1/2024''" ?cs ?c "''Kia''" "''Rio''" 2020 "\<lambda>c. CNull"]
  from inst hyp have cell: "excel_row None (\<lambda>d. ''1/1/2024'') ?c ! 3
      = CStr (''Kia'' @ '' '' @ ''Rio'' @ '' ('' @ string_of_nat 2020 @ '')'')"
    by blast
  from inst have len: "length (export_customers_excel None (\<lambda>d. ''1/1/2024'') ?cs) = length ?cs + 1"
    by blast
  from cell len year show ?thesis by simp
qed

section \<open>Summary of the empty dataset\<close>

text \<open>
  Claim C2 asks for 0 in every numeric field of the summary of an empty dataset. The
  code returns NULL for the three sums: \<^verbatim>\<open>SUM\<close> over zero rows is NULL, and the
  handler applies \<^verbatim>\<open>|| 0\<close> only inside the profit computation, not to the fields it
  returns. The three counts and the profit are 0.
\<close>

theorem summary_empty_dataset:
  "get_summary today [] [] =
     \<lparr> total_customers = 0, total_invested = None, total_collected = None, total_pending = None,
       overdue_customers = 0, completed_customers = 0, total_profit = 0 \<rparr>"
  by (simp add: get_summary_def left_join_def left_join_on_def sql_sum_def sql_count_distinct_def
      List.map_filter_simps or0_def)

section \<open>Facts about joins, counts and groups\<close>

lemma map_filter_id_set: "set (List.map_filter (\<lambda>x. x) xs) = {v. Some v \<in> set xs}"
  by (induction xs) (auto simp add: List.map_filter_simps split: option.splits)

lemma sql_count_zero_iff: "sql_count xs = 0 \<longleftrightarrow> (\<forall>x\<in>set xs. x = None)"
  by (induction xs) (auto simp add: sql_count_def List.map_filter_simps split: option.splits)

lemma sql_count_distinct_card: "sql_count_distinct xs = card {v. Some v \<in> set xs}"
proof -
  have "sql_count_distinct xs = card (set (List.map_filter (\<lambda>x. x) xs))"
    by (simp add: sql_count_distinct_def length_remdups_card_conv)
  then show ?thesis by (simp add: map_filter_id_set)
qed

lemma in_join_rows:
  "(c', r) \<in> set (case filter P ps of [] \<Rightarrow> [(c, None)] | q # qs \<Rightarrow> map (\<lambda>p. (c, Some p)) (q # qs))
     \<longleftrightarrow> c' = c \<and> (case r of None \<Rightarrow> \<not> (\<exists>p\<in>set ps. P p) | Some p \<Rightarrow> p \<in> set ps \<and> P p)"
proof (cases "filter P ps")
  case Nil
  then have "\<forall>p\<in>set ps. \<not> P p" by (simp add: filter_empty_conv)
  with Nil show ?thesis by (cases r) auto
next
  case (Cons q qs)
  have mem: "p \<in> set (q # qs) \<longleftrightarrow> p \<in> set ps \<and> P p" for p
    using Cons [symmetric] by simp
  from mem [of q] have ex: "\<exists>p\<in>set ps. P p" by auto
  have "(c', r) \<in> set (map (\<lambda>p. (c, Some p)) (q # qs))
      \<longleftrightarrow> c' = c \<and> (\<exists>p. r = Some p \<and> p \<in> set (q # qs))"
    by (simp only: set_map) auto
  also have "\<dots> \<longleftrightarrow> c' = c \<and> (case r of None \<Rightarrow> \<not> (\<exists>p\<in>set ps. P p) | Some p \<Rightarrow> p \<in> set ps \<and> P p)"
    using ex by (cases r) (simp_all only: mem, auto)
  finally show ?thesis by (simp only: Cons list.case)
qed

lemma in_left_join_on:
  "(c, r) \<in> set (left_join_on cond cs ps) \<longleftrightarrow>
     c \<in> set cs \<and>
     (case r of
        None \<Rightarrow> \<not> (\<exists>p\<in>set ps. customerId p = cid c \<and> cond p)
      | Some p \<Rightarrow> p \<in> set ps \<and> customerId p = cid c \<and> cond p)"
proof -
  have "(c, r) \<in> set (left_join_on cond cs ps) \<longleftrightarrow>
      (\<exists>c'\<in>set cs. c = c' \<and> (case r of
          None \<Rightarrow> \<not> (\<exists>p\<in>set ps. customerId p = cid c' \<and> cond p)
        | Some p \<Rightarrow> p \<in> set ps \<and> (customerId p = cid c' \<and> cond p)))"
    unfolding left_join_on_def set_concat set_map
    by (simp only: UN_iff bex_simps image_iff in_join_rows)
  also have "\<dots> \<longleftrightarrow> c \<in> set cs \<and>
     (case r of
        None \<Rightarrow> \<not> (\<exists>p\<in>set ps. customerId p = cid c \<and> cond p)
      | Some p \<Rightarrow> p \<in> set ps \<and> customerId p = cid c \<and> cond p)"
    by (cases r) auto
  finally show ?thesis .
qed

lemma left_join_on_ids: "(\<lambda>(c, r). cid c) ` set (left_join_on cond cs ps) = cid ` set cs"
proof (intro equalityI subsetI)
  fix k assume "k \<in> (\<lambda>(c, r). cid c) ` set (left_join_on cond cs ps)"
  then show "k \<in> cid ` set cs" by (auto simp add: in_left_join_on)
next
  fix k assume "k \<in> cid ` set cs"
  then obtain c where c: "c \<in> set cs" "k = cid c" by auto
  show "k \<in> (\<lambda>(c, r). cid c) ` set (left_join_on cond cs ps)"
  proof (cases "\<exists>p\<in>set ps. customerId p = cid c \<and> cond p")
    case True
    then obtain p where "p \<in> set ps" "customerId p = cid c" "cond p" by auto
    with c have "(c, Some p) \<in> set (left_join_on cond cs ps)" by (simp add: in_left_join_on)
    with c show ?thesis by force
  next
    case False
    with c have "(c, None) \<in> set (left_join_on cond cs ps)" by (simp add: in_left_join_on)
    with c show ?thesis by force
  qed
qed

lemma exists_pending_iff:
  "exists_pending ps k \<longleftrightarrow> (\<exists>p\<in>set ps. customerId p = k \<and> status p = ''pending'')"
  by (simp add: exists_pending_def list_ex_iff)

lemma length_concat_guard:
  "length (concat (map (\<lambda>k. if P k then [f k] else []) ks)) = length (filter P ks)"
  by (induction ks) simp_all

lemma pending_group_empty_iff:
  assumes "k \<in> cid ` set cs"
  shows "sql_count (map (\<lambda>(c, r). case r of None \<Rightarrow> None
                | Some p \<Rightarrow> if status p = ''pending'' then Some (1::nat) else None)
           (filter (\<lambda>(c, r). cid c = k) (left_join_on (\<lambda>p. status p = ''pending'') cs ps))) = 0
         \<longleftrightarrow> \<not> exists_pending ps k"
proof -
  from assms obtain c0 where c0: "c0 \<in> set cs" "cid c0 = k" by auto
  show ?thesis
  proof
    assume z: "sql_count (map (\<lambda>(c, r). case r of None \<Rightarrow> None
                | Some p \<Rightarrow> if status p = ''pending'' then Some (1::nat) else None)
           (filter (\<lambda>(c, r). cid c = k) (left_join_on (\<lambda>p. status p = ''pending'') cs ps))) = 0"
    show "\<not> exists_pending ps k"
    proof
      assume "exists_pending ps k"
      then obtain p where p: "p \<in> set ps" "customerId p = k" "status p = ''pending''"
        by (auto simp add: exists_pending_iff)
      with c0 have "(c0, Some p) \<in> set (left_join_on (\<lambda>p. status p = ''pending'') cs ps)"
        by (simp add: in_left_join_on)
      with c0 p z show False
        by (force simp add: sql_count_zero_iff)
    qed
  next
    assume n: "\<not> exists_pending ps k"
    show "sql_count (map (\<lambda>(c, r). case r of None \<Rightarrow> None
                | Some p \<Rightarrow> if status p = ''pending'' then Some (1::nat) else None)
           (filter (\<lambda>(c, r). cid c = k) (left_join_on (\<lambda>p. status p = ''pending'') cs ps))) = 0"
      using n by (auto simp add: sql_count_zero_iff in_left_join_on exists_pending_iff split: option.splits)
  qed
qed

lemma count_fully_paid_groups:
  "\<exists>g. count_fully_paid cs ps = CountGroups g
       \<and> length g = card {k \<in> cid ` set cs. \<not> exists_pending ps k}"
proof -
  let ?rows = "left_join_on (\<lambda>p. status p = ''pending'') cs ps"
  let ?keys = "remdups (map (\<lambda>(c, r). cid c) ?rows)"
  let ?cnt = "\<lambda>k. sql_count (map (\<lambda>(c, r). case r of None \<Rightarrow> None
                | Some p \<Rightarrow> if status p = ''pending'' then Some (1::nat) else None)
           (filter (\<lambda>(c, r). cid c = k) ?rows))"
  let ?out = "\<lambda>k. sql_count (map (\<lambda>(c, r). Some (cid c)) (filter (\<lambda>(c, r). cid c = k) ?rows))"
  let ?g = "concat (map (\<lambda>k. if ?cnt k = 0 then [?out k] else []) ?keys)"
  have keys: "set ?keys = cid ` set cs"
    using left_join_on_ids [of "\<lambda>p. status p = ''pending''" cs ps] by simp
  have eq: "count_fully_paid cs ps = CountGroups ?g"
    by (simp add: count_fully_paid_def Let_def)
  have "length ?g = length (filter (\<lambda>k. ?cnt k = 0) ?keys)"
    by (rule length_concat_guard)
  also have "filter (\<lambda>k. ?cnt k = 0) ?keys = filter (\<lambda>k. \<not> exists_pending ps k) ?keys"
    by (rule filter_cong [OF refl]) (simp only: keys pending_group_empty_iff)
  also have "length \<dots> = card (set (filter (\<lambda>k. \<not> exists_pending ps k) ?keys))"
    by (rule distinct_card [symmetric]) simp
  also have "set (filter (\<lambda>k. \<not> exists_pending ps k) ?keys) = {k \<in> cid ` set cs. \<not> exists_pending ps k}"
    using keys by auto
  finally have "length ?g = card {k \<in> cid ` set cs. \<not> exists_pending ps k}" .
  with eq show ?thesis by blast
qed

lemma completed_customers_card:
  "completed_customers (get_summary today cs ps) = card {k \<in> cid ` set cs. \<not> exists_pending ps k}"
proof -
  have "{v. Some v \<in> set (map (\<lambda>(c, r). if \<not> exists_pending ps (cid c) then Some (cid c) else None)
            (left_join cs ps))} = {k \<in> (\<lambda>(c, r). cid c) ` set (left_join cs ps). \<not> exists_pending ps k}"
    by (force split: if_splits)
  then show ?thesis
    by (simp add: get_summary_def Let_def sql_count_distinct_card left_join_def left_join_on_ids)
qed

section \<open>Dashboard: the fully-paid metric\<close>

text \<open>
  Claim C3 says that \<^verbatim>\<open>fullyPaidCustomers\<close> is a number, equal to the summary's
  \<^verbatim>\<open>completed_customers\<close>. The predicate is the same, but the value the code returns is
  not a number: the count is taken under a \<^verbatim>\<open>group\<close> option, so it is the list of the
  per-group counts, one entry per customer id without pending payments, and \<^verbatim>\<open>|| 0\<close>
  leaves a list as it is. Only the length of that list equals \<^verbatim>\<open>completed_customers\<close>.
  On the empty dataset the value is the empty list, where the summary says 0; for one
  customer without payments it is the list \<open>[1]\<close>, where the summary says 1.
\<close>

theorem fully_paid_is_group_list:
  "(\<exists>g. fullyPaidCustomers (get_dashboard today cs ps) = CountGroups g
        \<and> length g = completed_customers (get_summary today cs ps))
   \<and> fullyPaidCustomers (get_dashboard today [sample_customer 1 ''Bob'' ''555''] []) = CountGroups [1]
   \<and> completed_customers (get_summary today [sample_customer 1 ''Bob'' ''555''] []) = 1
   \<and> fullyPaidCustomers (get_dashboard today [] []) = CountGroups []
   \<and> completed_customers (get_summary today [] []) = 0"
proof -
  have general: "\<exists>g. fullyPaidCustomers (get_dashboard today cs ps) = CountGroups g
        \<and> length g = completed_customers (get_summary today cs ps)"
    using count_fully_paid_groups [of cs ps]
    by (simp add: get_dashboard_def completed_customers_card)
  have concrete:
    "fullyPaidCustomers (get_dashboard today [sample_customer 1 ''Bob'' ''555''] []) = CountGroups [1]
     \<and> completed_customers (get_summary today [sample_customer 1 ''Bob'' ''555''] []) = 1
     \<and> fullyPaidCustomers (get_dashboard today [] []) = CountGroups []
     \<and> completed_customers (get_summary today [] []) = 0"
    by (simp add: get_dashboard_def count_fully_paid_def left_join_on_def sql_count_def
        List.map_filter_simps get_summary_def left_join_def sql_count_distinct_def exists_pending_def
        Let_def)
  from general concrete show ?thesis by (rule conjI)
qed

section \<open>Facts about sums under reordering\<close>



lemma sum_list_mset_cong:
  fixes vs ws :: "int list"
  assumes "mset vs = mset ws"
  shows "sum_list vs = sum_list ws"
proof -
  have "sum_list vs = sum_mset (mset vs)" by (simp add: sum_mset_sum_list)
  also have "\<dots> = sum_mset (mset ws)" by (simp add: assms)
  also have "\<dots> = sum_list ws" by (simp add: sum_mset_sum_list)
  finally show ?thesis .
qed






lemma exists_overdue_iff:
  "exists_overdue today ps k \<longleftrightarrow>
     (\<exists>p\<in>set ps. customerId p = k \<and> status p = ''pending'' \<and> sql_lt (dueDate p) today)"
  by (simp add: exists_overdue_def list_ex_iff)



section \<open>Profit: two formulas\<close>



section \<open>Facts about the customer report\<close>

lemma filter_Cons_head:
  assumes "filter P xs = y # ys"
  shows "P y \<and> y \<in> set xs"
proof -
  have "y \<in> set (filter P xs)" by (simp add: assms)
  then show ?thesis by simp
qed

lemma row_customer_group_row: "row_customer (customer_group_row c grp) = c"
  by (simp add: customer_group_row_def)

lemma left_join_has_row:
  assumes "c \<in> set cs"
  shows "\<exists>r. (c, r) \<in> set (left_join cs ps)"
proof (cases "\<exists>p\<in>set ps. customerId p = cid c")
  case True
  then obtain p where "p \<in> set ps" "customerId p = cid c" by auto
  with assms have "(c, Some p) \<in> set (left_join cs ps)"
    by (simp add: left_join_def in_left_join_on)
  then show ?thesis ..
next
  case False
  with assms have "(c, None) \<in> set (left_join cs ps)"
    by (simp add: left_join_def in_left_join_on)
  then show ?thesis ..
qed

lemma get_customers_sound:
  assumes "r \<in> set (get_customers today q cs ps)"
  shows "row_customer r \<in> set cs \<and> where_customers today q ps (row_customer r)"
proof -
  let ?rows = "filter (\<lambda>(c, r). where_customers today q ps c) (left_join cs ps)"
  from assms obtain k where
    r: "r \<in> set (case filter (\<lambda>(c, r). cid c = k) ?rows of
               [] \<Rightarrow> [] | (c, r0) # rest \<Rightarrow> [customer_group_row c ((c, r0) # rest)])"
    by (auto simp add: get_customers_def Let_def)
  show ?thesis
  proof (cases "filter (\<lambda>(c, r). cid c = k) ?rows")
    case Nil
    with r show ?thesis by simp
  next
    case (Cons y ys)
    obtain c r0 where y: "y = (c, r0)" by (cases y)
    from r Cons y have rc: "row_customer r = c" by (simp add: row_customer_group_row)
    from filter_Cons_head [OF Cons] y have "(c, r0) \<in> set ?rows" by simp
    then have "(c, r0) \<in> set (left_join cs ps)" and "where_customers today q ps c" by simp_all
    then have "c \<in> set cs" by (simp add: left_join_def in_left_join_on)
    with rc \<open>where_customers today q ps c\<close> show ?thesis by simp
  qed
qed

lemma get_customers_complete:
  assumes "c \<in> set cs" and "where_customers today q ps c"
  shows "\<exists>r\<in>set (get_customers today q cs ps). cid (row_customer r) = cid c"
proof -
  let ?rows = "filter (\<lambda>(c, r). where_customers today q ps c) (left_join cs ps)"
  let ?grp = "filter (\<lambda>(c', r). cid c' = cid c) ?rows"
  from left_join_has_row [OF assms(1)] obtain r0 where "(c, r0) \<in> set (left_join cs ps)" ..
  with assms(2) have in_rows: "(c, r0) \<in> set ?rows" by simp
  then have key: "cid c \<in> set (remdups (map (\<lambda>(c, r). cid c) ?rows))" by force
  from in_rows have "(c, r0) \<in> set ?grp" by simp
  then have "?grp \<noteq> []" by (metis empty_iff empty_set)
  then obtain y ys where Cons: "?grp = y # ys" by (meson neq_Nil_conv)
  obtain c' r' where y: "y = (c', r')" by (cases y)
  from filter_Cons_head [OF Cons] y have same: "cid c' = cid c" by simp
  have "customer_group_row c' ((c', r') # ys)
      \<in> set (case ?grp of [] \<Rightarrow> [] | (c, r0) # rest \<Rightarrow> [customer_group_row c ((c, r0) # rest)])"
    unfolding Cons y by simp
  with key have "customer_group_row c' ((c', r') # ys) \<in> set (get_customers today q cs ps)"
    unfolding get_customers_def Let_def set_rev set_sort set_concat set_map by blast
  moreover have "cid (row_customer (customer_group_row c' ((c', r') # ys))) = cid c"
    by (simp only: row_customer_group_row same)
  ultimately show ?thesis by blast
qed

lemma not_exists_without_payments:
  assumes "\<forall>p\<in>set ps. customerId p \<noteq> k"
  shows "\<not> exists_pending ps k \<and> \<not> exists_overdue today ps k"
  using assms by (auto simp add: exists_pending_iff exists_overdue_iff)

section \<open>Customer report: completed and overdue\<close>

text \<open>
  Claim C4: a customer without any payment is listed by the customer report under
  \<^verbatim>\<open>status=completed\<close> and is absent from it under \<^verbatim>\<open>status=overdue\<close>, whatever the
  other filters. The two predicates are not complements of each other: a customer whose
  only payment is pending and due today is in neither report.
\<close>

theorem zero_payments_completed_not_overdue:
  assumes "c \<in> set cs" and "\<forall>p\<in>set ps. customerId p \<noteq> cid c"
  shows "(\<exists>r\<in>set (get_customers today
              \<lparr> q_status = Some ''completed'', q_search = None, q_car_brand = None \<rparr> cs ps).
            cid (row_customer r) = cid c)
       \<and> (\<forall>q. q_status q = Some ''overdue'' \<longrightarrow>
            (\<forall>r\<in>set (get_customers today q cs ps). cid (row_customer r) \<noteq> cid c))
       \<and> (\<exists>cs0 ps0 c0. c0 \<in> set cs0
            \<and> (\<forall>r\<in>set (get_customers today
                  \<lparr> q_status = Some ''completed'', q_search = None, q_car_brand = None \<rparr> cs0 ps0).
                 cid (row_customer r) \<noteq> cid c0)
            \<and> (\<forall>r\<in>set (get_customers today
                  \<lparr> q_status = Some ''overdue'', q_search = None, q_car_brand = None \<rparr> cs0 ps0).
                 cid (row_customer r) \<noteq> cid c0))"
proof (intro conjI allI impI)
  note np = not_exists_without_payments [OF assms(2), of today]
  from np have "where_customers today
      \<lparr> q_status = Some ''completed'', q_search = None, q_car_brand = None \<rparr> ps c"
    by (simp add: where_customers_def present_def)
  with assms(1) show "\<exists>r\<in>set (get_customers today
              \<lparr> q_status = Some ''completed'', q_search = None, q_car_brand = None \<rparr> cs ps).
            cid (row_customer r) = cid c"
    by (rule get_customers_complete)
next
  fix q :: customers_query
  assume q: "q_status q = Some ''overdue''"
  note np = not_exists_without_payments [OF assms(2), of today]
  show "\<forall>r\<in>set (get_customers today q cs ps). cid (row_customer r) \<noteq> cid c"
  proof
    fix r assume "r \<in> set (get_customers today q cs ps)"
    from get_customers_sound [OF this]
    have "where_customers today q ps (row_customer r)"
      by (rule conjunct2)
    with q have "exists_overdue today ps (cid (row_customer r))"
      by (simp add: where_customers_def present_def)
    with np show "cid (row_customer r) \<noteq> cid c" by auto
  qed
next
  let ?c0 = "sample_customer 1 ''Bob'' ''555''"
  let ?ps0 = "[sample_payment 1 1 500 (Some today) ''pending'']"
  have pend: "exists_pending ?ps0 (cid ?c0)"
    by (simp add: exists_pending_def sample_payment_def sample_customer_def)
  have nover: "\<not> exists_overdue today ?ps0 k" for k
    by (simp add: exists_overdue_def sample_payment_def sql_lt_def)
  have a: "\<forall>r\<in>set (get_customers today
        \<lparr> q_status = Some ''completed'', q_search = None, q_car_brand = None \<rparr> [?c0] ?ps0).
      cid (row_customer r) \<noteq> cid ?c0"
  proof
    fix r assume "r \<in> set (get_customers today
        \<lparr> q_status = Some ''completed'', q_search = None, q_car_brand = None \<rparr> [?c0] ?ps0)"
    from get_customers_sound [OF this]
    have "where_customers today
        \<lparr> q_status = Some ''completed'', q_search = None, q_car_brand = None \<rparr> ?ps0 (row_customer r)"
      by (rule conjunct2)
    then have "\<not> exists_pending ?ps0 (cid (row_customer r))"
      by (simp add: where_customers_def present_def)
    with pend show "cid (row_customer r) \<noteq> cid ?c0" by metis
  qed
  have b: "\<forall>r\<in>set (get_customers today
        \<lparr> q_status = Some ''overdue'', q_search = None, q_car_brand = None \<rparr> [?c0] ?ps0).
      cid (row_customer r) \<noteq> cid ?c0"
  proof
    fix r assume "r \<in> set (get_customers today
        \<lparr> q_status = Some ''overdue'', q_search = None, q_car_brand = None \<rparr> [?c0] ?ps0)"
    from get_customers_sound [OF this]
    have "where_customers today
        \<lparr> q_status = Some ''overdue'', q_search = None, q_car_brand = None \<rparr> ?ps0 (row_customer r)"
      by (rule conjunct2)
    then have "exists_overdue today ?ps0 (cid (row_customer r))"
      by (simp add: where_customers_def present_def)
    with nover show "cid (row_customer r) \<noteq> cid ?c0" by metis
  qed
  have "?c0 \<in> set [?c0]" by simp
  with a b show "\<exists>cs0 ps0 c0. c0 \<in> set cs0
            \<and> (\<forall>r\<in>set (get_customers today
                  \<lparr> q_status = Some ''completed'', q_search = None, q_car_brand = None \<rparr> cs0 ps0).
                 cid (row_customer r) \<noteq> cid c0)
            \<and> (\<forall>r\<in>set (get_customers today
                  \<lparr> q_status = Some ''overdue'', q_search = None, q_car_brand = None \<rparr> cs0 ps0).
                 cid (row_customer r) \<noteq> cid c0)"
    by blast
qed


theorem zero_payments_completed_not_overdue_witness:
  "(\<exists>r\<in>set (get_customers (2024, 6, 1)
        \<lparr> q_status = Some ''completed'', q_search = None, q_car_brand = None \<rparr>
        [sample_customer 1 ''Bob'' ''555'', sample_customer 2 ''Al'' ''556'']
        [sample_payment 1 2 500 (Some (2024, 1, 1)) ''pending'']).
      cid (row_customer r) = 1)
   \<and> 1 \<notin> (\<lambda>r. cid (row_customer r)) ` set (get_customers (2024, 6, 1)
        \<lparr> q_status = Some ''overdue'', q_search = None, q_car_brand = None \<rparr>
        [sample_customer 1 ''Bob'' ''555'', sample_customer 2 ''Al'' ''556'']
        [sample_payment 1 2 500 (Some (2024, 1, 1)) ''pending''])"
proof -
  let ?c = "sample_customer 1 ''Bob'' ''555''"
  let ?cs = "[?c, sample_customer 2 ''Al'' ''556'']"
  let ?ps = "[sample_payment 1 2 500 (Some (2024, 1, 1)) ''pending'']"
  have h1: "?c \<in> set ?cs" by simp
  have h2: "\<forall>p\<in>set ?ps. customerId p \<noteq> cid ?c"
    by (simp add: sample_payment_def sample_customer_def)
  have id: "cid ?c = 1" by (simp add: sample_customer_def)
  note inst = zero_payments_completed_not_overdue [OF h1 h2, of "(2024, 6, 1)"]
  from inst have a: "\<exists>r\<in>set (get_customers (2024, 6, 1)
        \<lparr> q_status = Some ''completed'', q_search = None, q_car_brand = None \<rparr> ?cs ?ps).
      cid (row_customer r) = cid ?c"
    by blast
  from inst have ov: "q_status q = Some ''overdue'' \<Longrightarrow>
      r \<in> set (get_customers (2024, 6, 1) q ?cs ?ps) \<Longrightarrow> cid (row_customer r) \<noteq> cid ?c" for q r
    by blast
  have qs: "q_status \<lparr> q_status = Some ''overdue'', q_search = None, q_car_brand = None \<rparr>
      = Some ''overdue''"
    by simp
  from ov [OF qs] have b: "\<forall>r\<in>set (get_customers (2024, 6, 1)
        \<lparr> q_status = Some ''overdue'', q_search = None, q_car_brand = None \<rparr> ?cs ?ps).
      cid (row_customer r) \<noteq> cid ?c"
    by blast
  from a b show ?thesis unfolding id by auto
qed

section \<open>Facts about grouping\<close>

lemma sum_list_indicator_distinct:
  assumes "distinct ks" and "a \<in> set ks"
  shows "(\<Sum>k\<leftarrow>ks. if a = k then 1 else 0) = (1::nat)"
  using assms
proof (induction ks)
  case Nil
  then show ?case by simp
next
  case (Cons k ks)
  show ?case
  proof (cases "a = k")
    case True
    with Cons.prems have "a \<notin> set ks" by simp
    then have "(\<Sum>k\<leftarrow>ks. if a = k then 1 else 0) = (0::nat)"
      by (induction ks) auto
    with True show ?thesis by simp
  next
    case False
    with Cons show ?thesis by simp
  qed
qed

lemma sum_length_groups:
  assumes "distinct ks" and "f ` set xs \<subseteq> set ks"
  shows "(\<Sum>k\<leftarrow>ks. length (filter (\<lambda>x. f x = k) xs)) = length xs"
  using assms(2)
proof (induction xs)
  case Nil
  then show ?case by simp
next
  case (Cons x xs)
  have split: "length (filter (\<lambda>y. f y = k) (x # xs))
      = (if f x = k then 1 else 0) + length (filter (\<lambda>y. f y = k) xs)" for k
    by simp
  have "(\<Sum>k\<leftarrow>ks. length (filter (\<lambda>y. f y = k) (x # xs)))
      = (\<Sum>k\<leftarrow>ks. if f x = k then 1 else 0) + (\<Sum>k\<leftarrow>ks. length (filter (\<lambda>y. f y = k) xs))"
    unfolding split by (simp add: sum_list_addf)
  also have "(\<Sum>k\<leftarrow>ks. if f x = k then 1 else 0) = (1::nat)"
    using assms(1) Cons.prems by (intro sum_list_indicator_distinct) auto
  also have "(\<Sum>k\<leftarrow>ks. length (filter (\<lambda>y. f y = k) xs)) = length xs"
    using Cons by simp
  finally show ?case by simp
qed

lemma sql_sum_all_Some:
  "sql_sum (map (\<lambda>x. Some (g x)) xs) = (if xs = [] then None else Some (sum_list (map g xs)))"
proof -
  have "List.map_filter (\<lambda>x. x) (map (\<lambda>x. Some (g x)) xs) = map g xs"
    by (induction xs) (simp_all add: List.map_filter_simps)
  then show ?thesis by (cases xs) (simp_all add: sql_sum_def)
qed

lemma sum_list_guarded_amount:
  "sum_list (map (\<lambda>p. if P p then amount p else 0) xs) = sum_list (map amount (filter P xs))"
  by (induction xs) simp_all

lemma monthly_keys:
  "distinct (rev (sort (remdups ks)))"
  "set (rev (sort (remdups ks))) = set ks"
  "sorted_wrt (\<lambda>a b. a > b) (rev (sort (remdups ks)))"
proof -
  show "distinct (rev (sort (remdups ks)))" by simp
  show "set (rev (sort (remdups ks))) = set ks" by simp
  have "sorted_wrt (<) (sort (remdups ks))"
    by (simp add: strict_sorted_iff)
  then show "sorted_wrt (\<lambda>a b. a > b) (rev (sort (remdups ks)))"
    by (simp add: sorted_wrt_rev)
qed

lemma monthly_periods:
  "map period (get_monthly today ps)
     = rev (sort (remdups (map (\<lambda>p. year_month (dueDate p)) ps)))"
  by (simp add: get_monthly_def monthly_bucket_def comp_def)

lemma monthly_total:
  "map total_payments (get_monthly today ps)
     = map (\<lambda>k. length (filter (\<lambda>p. year_month (dueDate p) = k) ps))
         (rev (sort (remdups (map (\<lambda>p. year_month (dueDate p)) ps))))"
  by (simp add: get_monthly_def monthly_bucket_def comp_def)

lemma monthly_bucket_overdue:
  assumes "grp \<noteq> []"
  shows "overdue_amount (monthly_bucket today k grp)
     = Some (sum_list (map amount
         (filter (\<lambda>p. status p = ''pending'' \<and> sql_le (dueDate p) today) grp)))"
proof -
  have e: "(\<lambda>p. if status p = ''pending'' \<and> sql_le (dueDate p) today then Some (amount p) else Some 0)
      = (\<lambda>p. Some (if status p = ''pending'' \<and> sql_le (dueDate p) today then amount p else 0))"
    by (rule ext) simp
  have "overdue_amount (monthly_bucket today k grp)
      = sql_sum (map (\<lambda>p. Some (if status p = ''pending'' \<and> sql_le (dueDate p) today
                                  then amount p else 0)) grp)"
    by (simp only: monthly_bucket_def monthly_row.simps e)
  also have "\<dots> = Some (sum_list (map (\<lambda>p. if status p = ''pending'' \<and> sql_le (dueDate p) today
                                  then amount p else 0) grp))"
    using assms by (simp only: sql_sum_all_Some if_False)
  finally show ?thesis by (simp only: sum_list_guarded_amount)
qed

lemma monthly_bucket_shape:
  assumes "b \<in> set (get_monthly today ps)"
  shows "period b \<in> (\<lambda>p. year_month (dueDate p)) ` set ps
       \<and> b = monthly_bucket today (period b) (filter (\<lambda>p. year_month (dueDate p) = period b) ps)"
proof -
  from assms obtain k where k: "k \<in> (\<lambda>p. year_month (dueDate p)) ` set ps"
    and b: "b = monthly_bucket today k (filter (\<lambda>p. year_month (dueDate p) = k) ps)"
    by (auto simp add: get_monthly_def)
  from b have "period b = k" by (simp add: monthly_bucket_def)
  with k b show ?thesis by simp
qed

section \<open>Monthly report: the buckets partition the payments\<close>

text \<open>
  Claim C8: the year-month buckets of the monthly report partition the payments. The
  bucket sizes add up to the number of payments, the periods are pairwise distinct, every
  payment's period has its bucket, and each bucket counts exactly the payments of its
  period and is not empty; so every payment is counted in exactly one bucket. A bucket's
  overdue amount is the sum of its pending payments due on or before today, and the
  buckets come in strictly descending order of period. When every payment has a due date,
  no bucket has the NULL period. (The partition itself does not need that condition: the
  payments without a due date form one bucket of their own.)
\<close>

theorem monthly_buckets_partition:
  "sum_list (map total_payments (get_monthly today ps)) = length ps
   \<and> distinct (map period (get_monthly today ps))
   \<and> sorted_wrt (\<lambda>a b. a > b) (map period (get_monthly today ps))
   \<and> (\<forall>p\<in>set ps. \<exists>b\<in>set (get_monthly today ps). period b = year_month (dueDate p))
   \<and> (\<forall>b\<in>set (get_monthly today ps).
        total_payments b = length (filter (\<lambda>p. year_month (dueDate p) = period b) ps)
        \<and> 0 < total_payments b
        \<and> overdue_amount b = Some (sum_list (map amount
            (filter (\<lambda>p. year_month (dueDate p) = period b
                          \<and> status p = ''pending'' \<and> sql_le (dueDate p) today) ps)))
        \<and> ((\<forall>p\<in>set ps. dueDate p \<noteq> None) \<longrightarrow> period b \<noteq> None))"
proof (intro conjI ballI)
  let ?ym = "\<lambda>p. year_month (dueDate p)"
  let ?ks = "rev (sort (remdups (map ?ym ps)))"
  show "sum_list (map total_payments (get_monthly today ps)) = length ps"
    unfolding monthly_total by (rule sum_length_groups) simp_all
  show "distinct (map period (get_monthly today ps))"
    unfolding monthly_periods by (rule monthly_keys(1))
  show "sorted_wrt (\<lambda>a b. a > b) (map period (get_monthly today ps))"
    unfolding monthly_periods by (rule monthly_keys(3))
next
  fix p assume "p \<in> set ps"
  then have "year_month (dueDate p) \<in> set (map period (get_monthly today ps))"
    unfolding monthly_periods by simp
  then show "\<exists>b\<in>set (get_monthly today ps). period b = year_month (dueDate p)"
    by auto
next
  fix b assume b: "b \<in> set (get_monthly today ps)"
  let ?grp = "filter (\<lambda>p. year_month (dueDate p) = period b) ps"
  from monthly_bucket_shape [OF b]
  have k: "period b \<in> (\<lambda>p. year_month (dueDate p)) ` set ps"
    and shape: "b = monthly_bucket today (period b) ?grp"
    by simp_all
  from k have ne: "?grp \<noteq> []" by (auto simp add: filter_empty_conv)
  have tot: "total_payments b = length ?grp"
    by (subst shape) (simp add: monthly_bucket_def)
  show "total_payments b = length ?grp" by (rule tot)
  from ne tot show "0 < total_payments b" by simp
  have "overdue_amount b = Some (sum_list (map amount
      (filter (\<lambda>p. status p = ''pending'' \<and> sql_le (dueDate p) today) ?grp)))"
    by (subst shape) (rule monthly_bucket_overdue [OF ne])
  then show "overdue_amount b = Some (sum_list (map amount
      (filter (\<lambda>p. year_month (dueDate p) = period b
                    \<and> status p = ''pending'' \<and> sql_le (dueDate p) today) ps)))"
    by (simp add: conj_commute)
  show "(\<forall>p\<in>set ps. dueDate p \<noteq> None) \<longrightarrow> period b \<noteq> None"
  proof
    assume nn: "\<forall>p\<in>set ps. dueDate p \<noteq> None"
    from k obtain p where "p \<in> set ps" "period b = year_month (dueDate p)" by auto
    with nn show "period b \<noteq> None"
      by (auto simp add: year_month_def split: option.splits)
  qed
qed

theorem monthly_buckets_partition_witness:
  "map period (get_monthly (2024, 6, 1)
      [sample_payment 1 1 500 (Some (2024, 1, 1)) ''paid'',
       sample_payment 2 1 500 (Some (2024, 2, 1)) ''pending'',
       sample_payment 3 1 700 (Some (2024, 2, 9)) ''pending''])
     = [Some (2024, 2), Some (2024, 1)]
   \<and> map total_payments (get_monthly (2024, 6, 1)
      [sample_payment 1 1 500 (Some (2024, 1, 1)) ''paid'',
       sample_payment 2 1 500 (Some (2024, 2, 1)) ''pending'',
       sample_payment 3 1 700 (Some (2024, 2, 9)) ''pending'']) = [2, 1]
   \<and> sum_list (map total_payments (get_monthly (2024, 6, 1)
      [sample_payment 1 1 500 (Some (2024, 1, 1)) ''paid'',
       sample_payment 2 1 500 (Some (2024, 2, 1)) ''pending'',
       sample_payment 3 1 700 (Some (2024, 2, 9)) ''pending''])) = 3
   \<and> map overdue_amount (get_monthly (2024, 6, 1)
      [sample_payment 1 1 500 (Some (2024, 1, 1)) ''paid'',
       sample_payment 2 1 500 (Some (2024, 2, 1)) ''pending'',
       sample_payment 3 1 700 (Some (2024, 2, 9)) ''pending'']) = [Some 1200, Some 0]"
proof -
  let ?ps = "[sample_payment 1 1 500 (Some (2024, 1, 1)) ''paid'',
       sample_payment 2 1 500 (Some (2024, 2, 1)) ''pending'',
       sample_payment 3 1 700 (Some (2024, 2, 9)) ''pending'']"
  from monthly_buckets_partition [of "(2024, 6, 1)" ?ps]
  have s: "sum_list (map total_payments (get_monthly (2024, 6, 1) ?ps)) = length ?ps"
    by blast
  have m: "get_monthly (2024, 6, 1) ?ps =
     [\<lparr> period = Some (2024, 2), total_payments = 2, collected_amount = Some 0,
        overdue_amount = Some 1200, overdue_payments = 2, completed_payments = 0 \<rparr>,
      \<lparr> period = Some (2024, 1), total_payments = 1, collected_amount = Some 500,
        overdue_amount = Some 0, overdue_payments = 0, completed_payments = 1 \<rparr>]"
    by code_simp
  from s show ?thesis unfolding m by simp
qed

section \<open>Facts about double addition on whole numbers\<close>

lemma bit_length_le: "n < 2 ^ k \<Longrightarrow> bit_length n \<le> k"
proof (induction k arbitrary: n)
  case 0
  then show ?case by (simp add: bit_length.simps)
next
  case (Suc k)
  show ?case
  proof (cases "n = 0")
    case True
    then show ?thesis by (simp add: bit_length.simps)
  next
    case False
    from Suc.prems have "n div 2 < 2 ^ k" by simp
    then have "bit_length (n div 2) \<le> k" by (rule Suc.IH)
    with False show ?thesis by (subst bit_length.simps) simp
  qed
qed

lemma bit_length_54:
  "bit_length 9007199254740992 = 54"
  "bit_length 9007199254740993 = 54"
  "bit_length 9007199254740994 = 54"
  by (simp_all add: bit_length.simps)

lemma round53_at_2_53:
  "round53 9007199254740992 = 9007199254740992"
  "round53 (- 9007199254740992) = - 9007199254740992"
  "round53 9007199254740993 = 9007199254740992"
  "round53 9007199254740994 = 9007199254740994"
  by (simp_all add: round53_def Let_def bit_length_54)

lemma round53_exact:
  assumes "\<bar>x\<bar> \<le> 2 ^ 53"
  shows "round53 x = x"
proof (cases "\<bar>x\<bar> < 2 ^ 53")
  case True
  then have "nat \<bar>x\<bar> < 2 ^ 53" by (simp add: nat_less_iff)
  then have "bit_length (nat \<bar>x\<bar>) \<le> 53" by (rule bit_length_le)
  then show ?thesis by (simp add: round53_def Let_def)
next
  case False
  with assms have "\<bar>x\<bar> = 9007199254740992" by simp
  then have "x = 9007199254740992 \<or> x = - 9007199254740992" by linarith
  then show ?thesis using round53_at_2_53(1,2) by auto
qed

lemma foldl_js_add_exact:
  assumes "\<bar>a\<bar> + sum_list (map (\<lambda>p. \<bar>amount p\<bar>) ps) \<le> 2 ^ 53"
  shows "foldl (\<lambda>sum p. js_add sum (amount p)) a ps = a + sum_list (map amount ps)"
  using assms
proof (induction ps arbitrary: a)
  case Nil
  then show ?case by simp
next
  case (Cons p ps)
  have nonneg: "0 \<le> sum_list (map (\<lambda>p. \<bar>amount p\<bar>) ps)"
    by (rule sum_list_nonneg) auto
  from Cons.prems nonneg have "\<bar>a + amount p\<bar> \<le> 2 ^ 53" by simp
  then have step: "js_add a (amount p) = a + amount p"
    by (simp add: js_add_def round53_exact)
  from Cons.prems have "\<bar>a + amount p\<bar> + sum_list (map (\<lambda>p. \<bar>amount p\<bar>) ps) \<le> 2 ^ 53"
    by simp
  from Cons.IH [OF this] step show ?case by simp
qed

lemma reduce_amount_exact:
  assumes "sum_list (map (\<lambda>p. \<bar>amount p\<bar>) ps) \<le> 2 ^ 53"
  shows "reduce_amount ps = sum_list (map amount ps)"
  using foldl_js_add_exact [of 0 ps] assms by (simp add: reduce_amount_def)

lemma sum_abs_filter_le:
  "sum_list (map (\<lambda>p. \<bar>amount p\<bar>) (filter P ps)) \<le> sum_list (map (\<lambda>p. \<bar>amount p\<bar>) ps)"
  by (induction ps) auto

lemma abs_sum_list_le:
  "\<bar>sum_list (map amount ps)\<bar> \<le> sum_list (map (\<lambda>p. \<bar>amount p\<bar>) ps)"
  by (induction ps) auto

lemma sum_amount_three_way:
  "sum_list (map amount ps) =
     sum_list (map amount (filter (\<lambda>p. status p = ''paid'') ps))
   + sum_list (map amount (filter (\<lambda>p. status p = ''pending'') ps))
   + sum_list (map amount (filter (\<lambda>p. status p \<noteq> ''paid'' \<and> status p \<noteq> ''pending'') ps))"
  by (induction ps) auto

lemma sum_abs_two_way_le:
  "sum_list (map (\<lambda>p. \<bar>amount p\<bar>) (filter (\<lambda>p. status p = ''paid'') ps))
   + sum_list (map (\<lambda>p. \<bar>amount p\<bar>) (filter (\<lambda>p. status p = ''pending'') ps))
   \<le> sum_list (map (\<lambda>p. \<bar>amount p\<bar>) ps)"
  by (induction ps) auto

lemma filter_other_empty:
  "\<forall>p\<in>set ps. status p = ''paid'' \<or> status p = ''pending'' \<Longrightarrow>
   filter (\<lambda>p. status p \<noteq> ''paid'' \<and> status p \<noteq> ''pending'') ps = []"
  by (induction ps) auto

lemma sum_abs_findAll_customer:
  "sum_list (map (\<lambda>p. \<bar>amount p\<bar>) (findAll_customer k ps))
     = sum_list (map (\<lambda>p. \<bar>amount p\<bar>) (filter (\<lambda>p. customerId p = k) ps))"
  unfolding findAll_customer_def
  by (rule sum_list_mset_cong) simp

lemma js_add_small:
  assumes "\<bar>a + b\<bar> \<le> 2 ^ 53"
  shows "js_add a b = a + b"
  using assms by (simp add: js_add_def round53_exact)

section \<open>Customer history: paid, pending and total\<close>

text \<open>
  Claim C6, as stated, fails: a payment whose stored status is neither \<^verbatim>\<open>paid\<close> nor
  \<^verbatim>\<open>pending\<close> (the PDF export counts a stored \<^verbatim>\<open>overdue\<close>) enters the total and
  neither of the two partial sums. For customer 1 with one such payment of 100 the
  history reports paid 0, remaining 0 and total 100.
\<close>

theorem history_partition_counterexample:
  "js_add (paidAmount (customer_history 1 [sample_payment 1 1 100 (Some (2024, 1, 1)) ''overdue'']))
     (remainingAmount (customer_history 1 [sample_payment 1 1 100 (Some (2024, 1, 1)) ''overdue'']))
   \<noteq> totalAmount (customer_history 1 [sample_payment 1 1 100 (Some (2024, 1, 1)) ''overdue''])"
  by (simp add: customer_history_def findAll_customer_def reduce_amount_def sample_payment_def
      js_add_small)

text \<open>
  Claim C6, amended. The history lists exactly the customer's payments, in ascending
  order of due date. When the amounts are whole numbers whose absolute values add up to
  at most \<open>2 ^ 53\<close>, so that every double addition of the three folds is exact, the total
  is the paid sum plus the pending sum plus the sum of the payments in any other status;
  and when, in addition, every payment of the customer is paid or pending, paid plus
  remaining equals the total, also when that sum is itself taken in doubles. Beyond that
  range the folds round, and the equality can fail (\<open>history_rounding_beyond_53_bits\<close>
  below).
\<close>

theorem history_partition_by_status:
  "(sum_list (map (\<lambda>p. \<bar>amount p\<bar>) (filter (\<lambda>p. customerId p = k) ps)) \<le> 2 ^ 53 \<longrightarrow>
      totalAmount (customer_history k ps) =
        paidAmount (customer_history k ps) + remainingAmount (customer_history k ps)
        + sum_list (map amount (filter (\<lambda>p. status p \<noteq> ''paid'' \<and> status p \<noteq> ''pending'')
            (payments (customer_history k ps))))
      \<and> ((\<forall>p\<in>set ps. customerId p = k \<longrightarrow> status p = ''paid'' \<or> status p = ''pending'') \<longrightarrow>
           js_add (paidAmount (customer_history k ps)) (remainingAmount (customer_history k ps))
             = totalAmount (customer_history k ps)
           \<and> paidAmount (customer_history k ps) + remainingAmount (customer_history k ps)
             = totalAmount (customer_history k ps)))
   \<and> sorted (map dueDate (payments (customer_history k ps)))
   \<and> mset (payments (customer_history k ps)) = filter_mset (\<lambda>p. customerId p = k) (mset ps)"
proof (intro conjI impI)
  let ?rows = "findAll_customer k ps"
  let ?abs = "\<lambda>xs. sum_list (map (\<lambda>p. \<bar>amount p\<bar>) xs)"
  let ?paid = "filter (\<lambda>p. status p = ''paid'') ?rows"
  let ?pend = "filter (\<lambda>p. status p = ''pending'') ?rows"
  let ?other = "filter (\<lambda>p. status p \<noteq> ''paid'' \<and> status p \<noteq> ''pending'') ?rows"
  show "sorted (map dueDate (payments (customer_history k ps)))"
    by (simp add: customer_history_def findAll_customer_def Let_def)
  show "mset (payments (customer_history k ps)) = filter_mset (\<lambda>p. customerId p = k) (mset ps)"
    by (simp add: customer_history_def findAll_customer_def Let_def)
  assume bound: "?abs (filter (\<lambda>p. customerId p = k) ps) \<le> 2 ^ 53"
  then have rows: "?abs ?rows \<le> 2 ^ 53" by (simp only: sum_abs_findAll_customer)
  have tot: "totalAmount (customer_history k ps) = sum_list (map amount ?rows)"
    using reduce_amount_exact [OF rows] by (simp add: customer_history_def Let_def)
  have "?abs ?paid \<le> ?abs ?rows" by (rule sum_abs_filter_le)
  with rows have "?abs ?paid \<le> 2 ^ 53" by simp
  then have paid: "paidAmount (customer_history k ps) = sum_list (map amount ?paid)"
    using reduce_amount_exact by (simp add: customer_history_def Let_def)
  have "?abs ?pend \<le> ?abs ?rows" by (rule sum_abs_filter_le)
  with rows have "?abs ?pend \<le> 2 ^ 53" by simp
  then have pend: "remainingAmount (customer_history k ps) = sum_list (map amount ?pend)"
    using reduce_amount_exact by (simp add: customer_history_def Let_def)
  have pay: "payments (customer_history k ps) = ?rows"
    by (simp add: customer_history_def Let_def)
  show three: "totalAmount (customer_history k ps) =
        paidAmount (customer_history k ps) + remainingAmount (customer_history k ps)
        + sum_list (map amount (filter (\<lambda>p. status p \<noteq> ''paid'' \<and> status p \<noteq> ''pending'')
            (payments (customer_history k ps))))"
    unfolding tot paid pend pay by (rule sum_amount_three_way)
  assume all: "\<forall>p\<in>set ps. customerId p = k \<longrightarrow> status p = ''paid'' \<or> status p = ''pending''"
  then have "\<forall>p\<in>set ?rows. status p = ''paid'' \<or> status p = ''pending''"
    by (simp add: findAll_customer_def)
  then have "?other = []" by (rule filter_other_empty)
  with three pay show plain: "paidAmount (customer_history k ps) + remainingAmount (customer_history k ps)
             = totalAmount (customer_history k ps)"
    by simp
  have "\<bar>sum_list (map amount ?paid) + sum_list (map amount ?pend)\<bar>
      \<le> \<bar>sum_list (map amount ?paid)\<bar> + \<bar>sum_list (map amount ?pend)\<bar>"
    by (rule abs_triangle_ineq)
  also have "\<dots> \<le> ?abs ?paid + ?abs ?pend"
    by (intro add_mono abs_sum_list_le)
  also have "\<dots> \<le> ?abs ?rows" by (rule sum_abs_two_way_le)
  finally have "\<bar>paidAmount (customer_history k ps) + remainingAmount (customer_history k ps)\<bar> \<le> 2 ^ 53"
    using rows unfolding paid pend by simp
  then show "js_add (paidAmount (customer_history k ps)) (remainingAmount (customer_history k ps))
             = totalAmount (customer_history k ps)"
    using plain by (simp add: js_add_def round53_exact)
qed

theorem history_partition_by_status_witness:
  "paidAmount (customer_history 1 [sample_payment 1 1 300 (Some (2024, 2, 1)) ''pending'',
              sample_payment 2 1 200 (Some (2024, 1, 1)) ''paid'']) = 200
   \<and> remainingAmount (customer_history 1 [sample_payment 1 1 300 (Some (2024, 2, 1)) ''pending'',
              sample_payment 2 1 200 (Some (2024, 1, 1)) ''paid'']) = 300
   \<and> totalAmount (customer_history 1 [sample_payment 1 1 300 (Some (2024, 2, 1)) ''pending'',
              sample_payment 2 1 200 (Some (2024, 1, 1)) ''paid'']) = 500
   \<and> js_add (paidAmount (customer_history 1 [sample_payment 1 1 300 (Some (2024, 2, 1)) ''pending'',
              sample_payment 2 1 200 (Some (2024, 1, 1)) ''paid'']))
         (remainingAmount (customer_history 1 [sample_payment 1 1 300 (Some (2024, 2, 1)) ''pending'',
              sample_payment 2 1 200 (Some (2024, 1, 1)) ''paid'']))
       = totalAmount (customer_history 1 [sample_payment 1 1 300 (Some (2024, 2, 1)) ''pending'',
              sample_payment 2 1 200 (Some (2024, 1, 1)) ''paid''])
   \<and> map pid (payments (customer_history 1 [sample_payment 1 1 300 (Some (2024, 2, 1)) ''pending'',
              sample_payment 2 1 200 (Some (2024, 1, 1)) ''paid''])) = [2, 1]"
proof -
  let ?ps = "[sample_payment 1 1 300 (Some (2024, 2, 1)) ''pending'',
              sample_payment 2 1 200 (Some (2024, 1, 1)) ''paid'']"
  have bound: "sum_list (map (\<lambda>p. \<bar>amount p\<bar>) (filter (\<lambda>p. customerId p = 1) ?ps)) \<le> 2 ^ 53"
    by (simp add: sample_payment_def)
  have all: "\<forall>p\<in>set ?ps. customerId p = 1 \<longrightarrow> status p = ''paid'' \<or> status p = ''pending''"
    by (simp add: sample_payment_def)
  from history_partition_by_status [of 1 ?ps] bound all
  have js: "js_add (paidAmount (customer_history 1 ?ps)) (remainingAmount (customer_history 1 ?ps))
      = totalAmount (customer_history 1 ?ps)"
    by blast
  have vals: "paidAmount (customer_history 1 ?ps) = 200
      \<and> remainingAmount (customer_history 1 ?ps) = 300
      \<and> totalAmount (customer_history 1 ?ps) = 500
      \<and> map pid (payments (customer_history 1 ?ps)) = [2, 1]"
    by (simp add: customer_history_def findAll_customer_def reduce_amount_def sample_payment_def
        js_add_small less_eq_prod_def less_prod_def)
  from js vals show ?thesis by (intro conjI) (simp_all only:)
qed

text \<open>
  Outside the range of exact addition: one paid payment of \<open>2 ^ 53\<close> and two pending
  payments of 1. The total fold rounds \<open>2 ^ 53 + 1\<close> back to \<open>2 ^ 53\<close> twice, while paid
  plus remaining is \<open>2 ^ 53 + 2\<close>.
\<close>

lemma history_rounding_beyond_53_bits:
  "js_add
     (paidAmount (customer_history 1
        [sample_payment 1 1 (2 ^ 53) (Some (2024, 1, 1)) ''paid'',
         sample_payment 2 1 1 (Some (2024, 2, 1)) ''pending'',
         sample_payment 3 1 1 (Some (2024, 3, 1)) ''pending'']))
     (remainingAmount (customer_history 1
        [sample_payment 1 1 (2 ^ 53) (Some (2024, 1, 1)) ''paid'',
         sample_payment 2 1 1 (Some (2024, 2, 1)) ''pending'',
         sample_payment 3 1 1 (Some (2024, 3, 1)) ''pending'']))
   = 2 ^ 53 + 2
   \<and> totalAmount (customer_history 1
        [sample_payment 1 1 (2 ^ 53) (Some (2024, 1, 1)) ''paid'',
         sample_payment 2 1 1 (Some (2024, 2, 1)) ''pending'',
         sample_payment 3 1 1 (Some (2024, 3, 1)) ''pending''])
   = 2 ^ 53"
  by (simp add: customer_history_def findAll_customer_def reduce_amount_def sample_payment_def
      js_add_def round53_at_2_53 round53_exact less_eq_prod_def less_prod_def)

section \<open>Facts about the pattern operator\<close>

lemma like_percent_all: "like [CHR ''%''] t"
  by (induction t) simp_all

lemma like_percent_intro: "like ps t \<Longrightarrow> like (CHR ''%'' # ps) t"
  by (cases t) simp_all

lemma like_prefix_exact:
  assumes "CHR ''%'' \<notin> set se" and "CHR ''_'' \<notin> set se"
  shows "like (se @ [CHR ''%'']) t = prefix_ci se t"
  using assms
proof (induction se arbitrary: t)
  case Nil
  then show ?case by (simp add: like_percent_all)
next
  case (Cons a s)
  then show ?case by (cases t) auto
qed

lemma like_prefix_general: "prefix_ci se t \<Longrightarrow> like (se @ [CHR ''%'']) t"
proof (induction se arbitrary: t)
  case Nil
  then show ?case by (simp add: like_percent_all)
next
  case (Cons a s)
  then show ?case by (cases t) (auto intro: like_percent_intro)
qed

lemma like_contains_exact:
  assumes "CHR ''%'' \<notin> set se" and "CHR ''_'' \<notin> set se"
  shows "like (CHR ''%'' # se @ [CHR ''%'']) t = contains_ci se t"
  by (induction t) (simp_all add: like_prefix_exact [OF assms])

lemma like_contains_general: "contains_ci se t \<Longrightarrow> like (CHR ''%'' # se @ [CHR ''%'']) t"
  by (induction t) (auto simp add: like_prefix_general)

lemma c_string_no_nul: "CHR 0x00 \<notin> set s \<Longrightarrow> c_string s = s"
  by (auto simp add: c_string_def takeWhile_eq_all_conv)

lemma c_string_prefix: "\<exists>v. t = c_string t @ v"
  unfolding c_string_def by (metis takeWhile_dropWhile_id)

lemma c_string_pattern:
  assumes "CHR 0x00 \<notin> set se"
  shows "c_string (CHR ''%'' # se @ [CHR ''%'']) = CHR ''%'' # se @ [CHR ''%'']"
  using assms by (intro c_string_no_nul) auto

lemma contains_ci_Nil: "contains_ci [] t"
  by (cases t) simp_all

lemma prefix_ci_append: "prefix_ci se u \<Longrightarrow> prefix_ci se (u @ v)"
proof (induction se arbitrary: u)
  case Nil
  then show ?case by simp
next
  case (Cons a s)
  then show ?case by (cases u) auto
qed

lemma contains_ci_append: "contains_ci se u \<Longrightarrow> contains_ci se (u @ v)"
proof (induction u)
  case Nil
  then have "se = []" by (cases se) simp_all
  then show ?case by (simp add: contains_ci_Nil)
next
  case (Cons b u)
  then show ?case by (auto dest: prefix_ci_append [where v = v])
qed

lemma sql_like_contains_general:
  assumes "CHR 0x00 \<notin> set se" and "CHR 0x00 \<notin> set t" and "contains_ci se t"
  shows "sql_like (CHR ''%'' # se @ [CHR ''%'']) t"
proof -
  have pat: "c_string (CHR ''%'' # se @ [CHR ''%'']) = CHR ''%'' # se @ [CHR ''%'']"
    by (rule c_string_pattern [OF assms(1)])
  have whole: "c_string t = t" by (rule c_string_no_nul [OF assms(2)])
  show ?thesis unfolding sql_like_def pat whole by (rule like_contains_general [OF assms(3)])
qed

lemma sql_like_contains_exact:
  assumes "CHR ''%'' \<notin> set se" and "CHR ''_'' \<notin> set se" and "CHR 0x00 \<notin> set se"
    and "sql_like (CHR ''%'' # se @ [CHR ''%'']) t"
  shows "contains_ci se t"
proof -
  have pat: "c_string (CHR ''%'' # se @ [CHR ''%'']) = CHR ''%'' # se @ [CHR ''%'']"
    by (rule c_string_pattern [OF assms(3)])
  from assms(4) have "like (CHR ''%'' # se @ [CHR ''%'']) (c_string t)"
    unfolding sql_like_def pat .
  then have "contains_ci se (c_string t)"
    by (simp only: like_contains_exact [OF assms(1,2)])
  moreover obtain v where "t = c_string t @ v" using c_string_prefix by blast
  ultimately show ?thesis by (metis contains_ci_append)
qed

lemma where_search_only:
  assumes "se \<noteq> []"
  shows "where_customers today \<lparr> q_status = None, q_search = Some se, q_car_brand = None \<rparr> ps c
     \<longleftrightarrow> sql_like (CHR ''%'' # se @ [CHR ''%'']) (fullName c)
          \<or> sql_like (CHR ''%'' # se @ [CHR ''%'']) (phoneNumber c)"
  using assms by (simp add: where_customers_def present_def)

lemma where_search_implies:
  assumes "se \<noteq> []" and "q_search q = Some se" and "where_customers today q ps c"
  shows "sql_like (CHR ''%'' # se @ [CHR ''%'']) (fullName c)
          \<or> sql_like (CHR ''%'' # se @ [CHR ''%'']) (phoneNumber c)"
  using assms by (simp add: where_customers_def present_def)

section \<open>Customer report: the search filter\<close>

text \<open>
  Claim C7, as stated for every search string, fails: the search string is spliced into
  a \<^verbatim>\<open>LIKE\<close> pattern unescaped, so \<^verbatim>\<open>%\<close> and \<^verbatim>\<open>_\<close> in it are wildcards. The search
  \<^verbatim>\<open>_\<close> returns a customer whose name and phone number contain no underscore.
\<close>

theorem search_wildcard_counterexample:
  "map (\<lambda>r. cid (row_customer r)) (get_customers (2024, 6, 1)
      \<lparr> q_status = None, q_search = Some ''_'', q_car_brand = None \<rparr>
      [sample_customer 1 ''Bob'' ''555''] []) = [1]
   \<and> \<not> contains_ci ''_'' (fullName (sample_customer 1 ''Bob'' ''555''))
   \<and> \<not> contains_ci ''_'' (phoneNumber (sample_customer 1 ''Bob'' ''555''))"
  by code_simp

text \<open>
  Claim C7, amended: for every non-empty search string without a NUL character, a
  customer whose phone number has no NUL character and contains the search string (up to
  ASCII case) is returned whatever the name, and so is a customer whose name does; and
  when the search string has no \<^verbatim>\<open>%\<close>, no \<^verbatim>\<open>_\<close> and no NUL character, every row
  returned under that search contains it in the name or in the phone number.
\<close>

theorem search_filter_like:
  assumes "c \<in> set cs" and "se \<noteq> []"
  shows "(CHR 0x00 \<notin> set se \<and> CHR 0x00 \<notin> set (phoneNumber c) \<and> contains_ci se (phoneNumber c) \<longrightarrow>
            (\<exists>r\<in>set (get_customers today
                \<lparr> q_status = None, q_search = Some se, q_car_brand = None \<rparr> cs ps).
               cid (row_customer r) = cid c))
       \<and> (CHR 0x00 \<notin> set se \<and> CHR 0x00 \<notin> set (fullName c) \<and> contains_ci se (fullName c) \<longrightarrow>
            (\<exists>r\<in>set (get_customers today
                \<lparr> q_status = None, q_search = Some se, q_car_brand = None \<rparr> cs ps).
               cid (row_customer r) = cid c))
       \<and> (CHR ''%'' \<notin> set se \<and> CHR ''_'' \<notin> set se \<and> CHR 0x00 \<notin> set se \<longrightarrow>
            (\<forall>q. q_search q = Some se \<longrightarrow>
               (\<forall>r\<in>set (get_customers today q cs ps).
                  contains_ci se (fullName (row_customer r))
                  \<or> contains_ci se (phoneNumber (row_customer r)))))"
proof (intro conjI impI allI ballI)
  assume "CHR 0x00 \<notin> set se \<and> CHR 0x00 \<notin> set (phoneNumber c) \<and> contains_ci se (phoneNumber c)"
  then have "sql_like (CHR ''%'' # se @ [CHR ''%'']) (phoneNumber c)"
    by (intro sql_like_contains_general) simp_all
  then have "where_customers today \<lparr> q_status = None, q_search = Some se, q_car_brand = None \<rparr> ps c"
    by (simp add: where_search_only [OF assms(2)])
  with assms(1) show "\<exists>r\<in>set (get_customers today
        \<lparr> q_status = None, q_search = Some se, q_car_brand = None \<rparr> cs ps).
      cid (row_customer r) = cid c"
    by (rule get_customers_complete)
next
  assume "CHR 0x00 \<notin> set se \<and> CHR 0x00 \<notin> set (fullName c) \<and> contains_ci se (fullName c)"
  then have "sql_like (CHR ''%'' # se @ [CHR ''%'']) (fullName c)"
    by (intro sql_like_contains_general) simp_all
  then have "where_customers today \<lparr> q_status = None, q_search = Some se, q_car_brand = None \<rparr> ps c"
    by (simp add: where_search_only [OF assms(2)])
  with assms(1) show "\<exists>r\<in>set (get_customers today
        \<lparr> q_status = None, q_search = Some se, q_car_brand = None \<rparr> cs ps).
      cid (row_customer r) = cid c"
    by (rule get_customers_complete)
next
  fix q :: customers_query and r
  assume wf: "CHR ''%'' \<notin> set se \<and> CHR ''_'' \<notin> set se \<and> CHR 0x00 \<notin> set se"
    and q: "q_search q = Some se"
    and r: "r \<in> set (get_customers today q cs ps)"
  from get_customers_sound [OF r] have "where_customers today q ps (row_customer r)"
    by (rule conjunct2)
  from where_search_implies [OF assms(2) q this] wf
  show "contains_ci se (fullName (row_customer r)) \<or> contains_ci se (phoneNumber (row_customer r))"
    by (auto intro: sql_like_contains_exact)
qed

theorem search_filter_like_witness:
  "(\<exists>r\<in>set (get_customers (2024, 6, 1)
        \<lparr> q_status = None, q_search = Some ''55'', q_car_brand = None \<rparr>
        [sample_customer 1 ''Bob'' ''555'', sample_customer 2 ''Al'' ''777''] []).
      cid (row_customer r) = 1)
   \<and> \<not> contains_ci ''55'' (fullName (sample_customer 1 ''Bob'' ''555''))
   \<and> (\<exists>r\<in>set (get_customers (2024, 6, 1)
        \<lparr> q_status = None, q_search = Some ''bO'', q_car_brand = None \<rparr>
        [sample_customer 1 ''Bob'' ''555'', sample_customer 2 ''Al'' ''777''] []).
      cid (row_customer r) = 1)
   \<and> 2 \<notin> (\<lambda>r. cid (row_customer r)) ` set (get_customers (2024, 6, 1)
        \<lparr> q_status = None, q_search = Some ''55'', q_car_brand = None \<rparr>
        [sample_customer 1 ''Bob'' ''555'', sample_customer 2 ''Al'' ''777''] [])"
proof -
  let ?c = "sample_customer 1 ''Bob'' ''555''"
  let ?cs = "[?c, sample_customer 2 ''Al'' ''777'']"
  have h1: "?c \<in> set ?cs" by simp
  have id: "cid ?c = 1" by (simp add: sample_customer_def)
  have ph: "contains_ci ''55'' (phoneNumber ?c)" by code_simp
  have nm: "contains_ci ''bO'' (fullName ?c)" by code_simp
  have nn: "\<not> contains_ci ''55'' (fullName ?c)" by code_simp
  have wf: "CHR ''%'' \<notin> set ''55'' \<and> CHR ''_'' \<notin> set ''55'' \<and> CHR 0x00 \<notin> set ''55''" by simp
  have z1: "CHR 0x00 \<notin> set ''55'' \<and> CHR 0x00 \<notin> set (phoneNumber ?c)"
    by (simp add: sample_customer_def)
  have z2: "CHR 0x00 \<notin> set ''bO'' \<and> CHR 0x00 \<notin> set (fullName ?c)"
    by (simp add: sample_customer_def)
  have al: "\<not> (contains_ci ''55'' (fullName r) \<or> contains_ci ''55'' (phoneNumber r))"
    if "r \<in> set ?cs" "cid r = 2" for r
  proof -
    from that have "r = sample_customer 2 ''Al'' ''777''" by (auto simp add: sample_customer_def)
    moreover have "\<not> (contains_ci ''55'' (fullName (sample_customer 2 ''Al'' ''777''))
        \<or> contains_ci ''55'' (phoneNumber (sample_customer 2 ''Al'' ''777'')))"
      by code_simp
    ultimately show ?thesis by simp
  qed
  have ne1: "''55'' \<noteq> []" and ne2: "''bO'' \<noteq> []" by simp_all
  note i1 = search_filter_like [OF h1 ne1, of "(2024, 6, 1)" "[]"]
  note i2 = search_filter_like [OF h1 ne2, of "(2024, 6, 1)" "[]"]
  from i1 ph z1 have a: "\<exists>r\<in>set (get_customers (2024, 6, 1)
        \<lparr> q_status = None, q_search = Some ''55'', q_car_brand = None \<rparr> ?cs []).
      cid (row_customer r) = cid ?c"
    by blast
  from i2 nm z2 have b: "\<exists>r\<in>set (get_customers (2024, 6, 1)
        \<lparr> q_status = None, q_search = Some ''bO'', q_car_brand = None \<rparr> ?cs []).
      cid (row_customer r) = cid ?c"
    by blast
  from i1 wf have only: "q_search q = Some ''55'' \<Longrightarrow>
      r \<in> set (get_customers (2024, 6, 1) q ?cs []) \<Longrightarrow>
      contains_ci ''55'' (fullName (row_customer r)) \<or> contains_ci ''55'' (phoneNumber (row_customer r))"
    for q r
    by blast
  have qs: "q_search \<lparr> q_status = None, q_search = Some ''55'', q_car_brand = None \<rparr> = Some ''55''"
    by simp
  from only [OF qs] have c: "\<forall>r\<in>set (get_customers (2024, 6, 1)
        \<lparr> q_status = None, q_search = Some ''55'', q_car_brand = None \<rparr> ?cs []).
      contains_ci ''55'' (fullName (row_customer r)) \<or> contains_ci ''55'' (phoneNumber (row_customer r))"
    by blast
  have d: "2 \<notin> (\<lambda>r. cid (row_customer r)) ` set (get_customers (2024, 6, 1)
        \<lparr> q_status = None, q_search = Some ''55'', q_car_brand = None \<rparr> ?cs [])"
  proof
    assume "2 \<in> (\<lambda>r. cid (row_customer r)) ` set (get_customers (2024, 6, 1)
        \<lparr> q_status = None, q_search = Some ''55'', q_car_brand = None \<rparr> ?cs [])"
    then obtain r where r: "r \<in> set (get_customers (2024, 6, 1)
        \<lparr> q_status = None, q_search = Some ''55'', q_car_brand = None \<rparr> ?cs [])"
      and r2: "cid (row_customer r) = 2" by auto
    from get_customers_sound [OF r] have "row_customer r \<in> set ?cs" by (rule conjunct1)
    from al [OF this r2] c r show False by blast
  qed
  from a b d nn show ?thesis unfolding id by auto
qed

text \<open>
  A NUL character ends the pattern: the search of a NUL followed by \<^verbatim>\<open>zzz\<close> is the
  pattern \<^verbatim>\<open>%\<close> and returns every customer, where the search \<^verbatim>\<open>zzz\<close> returns none.
\<close>

lemma search_nul_ends_pattern:
  "map (\<lambda>r. cid (row_customer r)) (get_customers (2024, 6, 1)
      \<lparr> q_status = None, q_search = Some (CHR 0x00 # ''zzz''), q_car_brand = None \<rparr>
      [sample_customer 1 ''Bob'' ''555''] []) = [1]
   \<and> map (\<lambda>r. cid (row_customer r)) (get_customers (2024, 6, 1)
      \<lparr> q_status = None, q_search = Some ''zzz'', q_car_brand = None \<rparr>
      [sample_customer 1 ''Bob'' ''555''] []) = []"
  by code_simp

section \<open>Filtered payments: malformed dates\<close>










end
